theory Spec2Isabelle
  imports Main "HOL-Library.Word" "HOL-Library.AList" "HOL-Library.Sublist"
    "HOL-Library.Char_ord" "HOL-Library.List_Lexorder"
begin

unbundle bit_operations_syntax

section \<open>The filesystem the installer works on\<close>

text \<open>
  The installer only stats, creates directories, creates or truncates regular files and
  writes them. The filesystem is a tree of regular files and directories; a path is the
  list of its components from the root, as \<open>filepath.Clean\<close> leaves them. Symbolic links
  and special files are not part of the model, so \<open>os.Stat\<close> and \<open>os.Lstat\<close> coincide.
  The process is the image builder's installer and runs as superuser: permission bits are
  recorded but never refuse an operation. Permission bits are those of \<open>FileMode.Perm\<close>.
\<close>

type_synonym name = string
type_synonym path = "name list"
type_synonym FileMode = "32 word"

datatype node = File FileMode string | Dir FileMode "(name \<times> node) list"

datatype errno = ENOENT | ENOTDIR | EISDIR | EEXIST

datatype error =
    PathError errno
  | Errorf string error
  | ErrorfPath string path
  | RelError
  | YamlError string

fun IsDir :: "node \<Rightarrow> bool" where
  "IsDir (Dir m es) = True"
| "IsDir (File m c) = False"

fun Mode :: "node \<Rightarrow> FileMode" where
  "Mode (Dir m es) = m"
| "Mode (File m c) = m"

text \<open>\<open>os.Stat\<close>: the node a path names, or the error of the first component that fails.\<close>

fun Stat :: "node \<Rightarrow> path \<Rightarrow> errno + node" where
  "Stat n [] = Inr n"
| "Stat (File m c) (x # xs) = Inl ENOTDIR"
| "Stat (Dir m es) (x # xs) =
     (case map_of es x of None \<Rightarrow> Inl ENOENT | Some n \<Rightarrow> Stat n xs)"

text \<open>\<open>os.IsNotExist\<close> holds of \<open>ENOENT\<close> alone; \<open>ENOTDIR\<close> is a different error.\<close>

fun IsNotExist :: "errno + node \<Rightarrow> bool" where
  "IsNotExist (Inl e) = (e = ENOENT)"
| "IsNotExist (Inr n) = False"

text \<open>
  \<open>os.Mkdir\<close>: the parent must be a directory and the name must be free. The new
  directory gets the requested permission bits without those of the umask.
\<close>

fun Mkdir :: "FileMode \<Rightarrow> node \<Rightarrow> path \<Rightarrow> FileMode \<Rightarrow> errno + node" where
  "Mkdir um n [] perm = Inl EEXIST"
| "Mkdir um (File m c) (x # xs) perm = Inl ENOTDIR"
| "Mkdir um (Dir m es) (x # xs) perm =
     (case map_of es x of
        None \<Rightarrow> (if xs = [] then Inr (Dir m (es @ [(x, Dir (perm AND NOT um) [])]))
                 else Inl ENOENT)
      | Some n \<Rightarrow>
          (if xs = [] then Inl EEXIST
           else (case Mkdir um n xs perm of
                   Inl e \<Rightarrow> Inl e
                 | Inr n' \<Rightarrow> Inr (Dir m (AList.update x n' es)))))"

text \<open>
  \<open>os.OpenFile\<close> with \<open>O_CREATE|O_WRONLY|O_TRUNC\<close>: an existing regular file is emptied and
  keeps its permission bits; a missing one is created empty with the requested bits
  without those of the umask; a directory cannot be opened for writing.
\<close>

fun OpenFile :: "FileMode \<Rightarrow> node \<Rightarrow> path \<Rightarrow> FileMode \<Rightarrow> errno + node" where
  "OpenFile um (File m c) [] perm = Inr (File m [])"
| "OpenFile um (Dir m es) [] perm = Inl EISDIR"
| "OpenFile um (File m c) (x # xs) perm = Inl ENOTDIR"
| "OpenFile um (Dir m es) (x # xs) perm =
     (case map_of es x of
        None \<Rightarrow> (if xs = [] then Inr (Dir m (es @ [(x, File (perm AND NOT um) [])]))
                 else Inl ENOENT)
      | Some n \<Rightarrow>
          (case OpenFile um n xs perm of
             Inl e \<Rightarrow> Inl e
           | Inr n' \<Rightarrow> Inr (Dir m (AList.update x n' es))))"

text \<open>Writing through the open destination replaces the content of the file at the path.\<close>

fun Write :: "node \<Rightarrow> path \<Rightarrow> string \<Rightarrow> errno + node" where
  "Write (File m c) [] d = Inr (File m d)"
| "Write (Dir m es) [] d = Inl EISDIR"
| "Write (File m c) (x # xs) d = Inl ENOTDIR"
| "Write (Dir m es) (x # xs) d =
     (case map_of es x of
        None \<Rightarrow> Inl ENOENT
      | Some n \<Rightarrow>
          (case Write n xs d of
             Inl e \<Rightarrow> Inl e
           | Inr n' \<Rightarrow> Inr (Dir m (AList.update x n' es))))"

text \<open>
  \<open>os.MkdirAll\<close>, as the library writes it: done if the path is a directory, \<open>ENOTDIR\<close> if
  it is something else; otherwise the parent first, then \<open>Mkdir\<close> of the path itself, whose
  error is forgiven when the path turns out to be a directory. The state comes back with
  the error, since directories made on the way stay.
\<close>

function MkdirAll :: "FileMode \<Rightarrow> node \<Rightarrow> path \<Rightarrow> FileMode \<Rightarrow> node \<times> errno option" where
  "MkdirAll um fs p perm =
     (case Stat fs p of
        Inr dir \<Rightarrow> (if IsDir dir then (fs, None) else (fs, Some ENOTDIR))
      | Inl e0 \<Rightarrow>
          (case MkdirAll um fs (butlast p) perm of
             (fs1, Some e) \<Rightarrow> (fs1, Some e)
           | (fs1, None) \<Rightarrow>
               (case Mkdir um fs1 p perm of
                  Inr fs2 \<Rightarrow> (fs2, None)
                | Inl e \<Rightarrow>
                    (case Stat fs1 p of
                       Inr dir \<Rightarrow> (if IsDir dir then (fs1, None) else (fs1, Some e))
                     | Inl e1 \<Rightarrow> (fs1, Some e)))))"
  by pat_completeness auto
termination
proof (relation "measure (\<lambda>(um, fs, p, perm). length p)")
  show "wf (measure (\<lambda>(um, fs, p, perm). length p))" by simp
next
  fix um :: FileMode and fs :: node and p :: path and perm :: FileMode and e0 :: errno
  assume "Stat fs p = Inl e0"
  then have "p \<noteq> []" by (cases p) auto
  then show "((um, fs, butlast p, perm), (um, fs, p, perm))
               \<in> measure (\<lambda>(um, fs, p, perm). length p)"
    by simp
qed

section \<open>Paths\<close>

text \<open>
  Path strings coming from outside (arguments, decoded options) are turned into component
  lists the way \<open>filepath.Clean\<close> reads them: empty components and \<open>.\<close> vanish, \<open>..\<close>
  drops the component before it. The working directory is taken to be the root.
\<close>

fun fields :: "string \<Rightarrow> string \<Rightarrow> string list" where
  "fields cur [] = [cur]"
| "fields cur (c # cs) =
     (if c = CHR ''/'' then cur # fields [] cs else fields (cur @ [c]) cs)"

fun Clean :: "path \<Rightarrow> string list \<Rightarrow> path" where
  "Clean acc [] = acc"
| "Clean acc (x # xs) =
     (if x = [] \<or> x = ''.'' then Clean acc xs
      else if x = ''..'' then Clean (butlast acc) xs
      else Clean (acc @ [x]) xs)"

definition toPath :: "string \<Rightarrow> path" where
  "toPath s = Clean [] (fields [] s)"

text \<open>\<open>filepath.Dir\<close> drops the last component; the root is its own parent.\<close>

definition filepath_Dir :: "path \<Rightarrow> path" where
  "filepath_Dir p = butlast p"

text \<open>
  \<open>filepath.Rel\<close> of a target below the base is the rest of the target. The walk hands
  the callback only paths below its root; for any other target the library answers with \<open>..\<close>
  components, which component lists do not carry: the model reports an error there.
\<close>

definition filepath_Rel :: "path \<Rightarrow> path \<Rightarrow> error + path" where
  "filepath_Rel basepath targpath =
     (if prefix basepath targpath then Inr (drop (length basepath) targpath)
      else Inl RelError)"

section \<open>The directory copier\<close>

text \<open>
  \<open>copyFile\<close>: open the source, open the destination with create and truncate, copy.
  \<open>io.Copy\<close> reads the source after the destination was opened, so a file copied onto
  itself is read back empty.
\<close>

definition copyFile :: "FileMode \<Rightarrow> path \<Rightarrow> path \<Rightarrow> FileMode \<Rightarrow> node \<Rightarrow> node \<times> error option" where
  "copyFile um src dst mode fs =
     (case Stat fs src of
        Inl e \<Rightarrow> (fs, Some (PathError e))
      | Inr srcFile \<Rightarrow>
          (case OpenFile um fs dst mode of
             Inl e \<Rightarrow> (fs, Some (PathError e))
           | Inr fs1 \<Rightarrow>
               (case Stat fs1 src of
                  Inl e \<Rightarrow> (fs1, Some (PathError e))
                | Inr (Dir m es) \<Rightarrow> (fs1, Some (PathError EISDIR))
                | Inr (File m c) \<Rightarrow>
                    (case Write fs1 dst c of
                       Inl e \<Rightarrow> (fs1, Some (PathError e))
                     | Inr fs2 \<Rightarrow> (fs2, None)))))"

text \<open>
  \<open>filepath.Walk\<close>: the callback on the entry; for a directory, the callback and then its
  names in lexical order, each one looked up and walked. The walk follows the tree that
  \<open>Lstat\<close> found at the root; this is what the library does as long as the callback writes
  nothing into the tree being walked, that is, as long as source and destination are not
  nested in one another. Reading the names of a directory that \<open>Lstat\<close> found cannot fail
  here.
\<close>

type_synonym WalkFunc = "path \<Rightarrow> error + node \<Rightarrow> node \<Rightarrow> node \<times> error option"

definition readDirNames :: "(name \<times> node) list \<Rightarrow> name list" where
  "readDirNames es = sort (remdups (map fst es))"

function walk :: "WalkFunc \<Rightarrow> path \<Rightarrow> node \<Rightarrow> node \<Rightarrow> node \<times> error option"
  and walk_names :: "WalkFunc \<Rightarrow> path \<Rightarrow> (name \<times> node) list \<Rightarrow> name list \<Rightarrow> node
                       \<Rightarrow> node \<times> error option"
where
  "walk fn p (File m c) fs = fn p (Inr (File m c)) fs"
| "walk fn p (Dir m es) fs =
     (case fn p (Inr (Dir m es)) fs of
        (fs1, Some e) \<Rightarrow> (fs1, Some e)
      | (fs1, None) \<Rightarrow> walk_names fn p es (readDirNames es) fs1)"
| "walk_names fn p es [] fs = (fs, None)"
| "walk_names fn p es (x # xs) fs =
     (case map_of es x of
        None \<Rightarrow>
          (case fn (p @ [x]) (Inl (PathError ENOENT)) fs of
             (fs1, Some e) \<Rightarrow> (fs1, Some e)
           | (fs1, None) \<Rightarrow> walk_names fn p es xs fs1)
      | Some fileInfo \<Rightarrow>
          (case walk fn (p @ [x]) fileInfo fs of
             (fs1, Some e) \<Rightarrow> (fs1, Some e)
           | (fs1, None) \<Rightarrow> walk_names fn p es xs fs1))"
  by pat_completeness auto
termination
proof -
  have below: "size n < size_list (size_prod (\<lambda>_. 0) size) es"
    if "map_of es x = Some n" for es :: "(name \<times> node) list" and x n
    using that by (induction es) (auto split: if_splits)
  show ?thesis
    by (relation "inv_image (less_than <*lex*> less_than)
          (\<lambda>a. case a of
                  Inl (fn, p, info, fs) \<Rightarrow> (size info, 0::nat)
                | Inr (fn, p, es, xs, fs) \<Rightarrow>
                    (size_list (size_prod (\<lambda>_. 0) size) es, Suc (length xs)))")
       (auto dest: below)
qed

definition Walk :: "path \<Rightarrow> WalkFunc \<Rightarrow> node \<Rightarrow> node \<times> error option" where
  "Walk root fn fs =
     (case Stat fs root of
        Inl e \<Rightarrow> fn root (Inl (PathError e)) fs
      | Inr info \<Rightarrow> walk fn root info fs)"

text \<open>
  The library's walk runs on the filesystem as it is at each step: it reads the names of a
  directory before the callback is called on it, and looks each name up when its turn
  comes. The depth it may descend is bounded by a counter here; \<open>None\<close> means the counter
  ran out. For source and destination not nested in one another this walk and the one
  above return the same (\<open>Walk_live_is_copyDirectory\<close> below).
\<close>

function walk_live :: "nat \<Rightarrow> WalkFunc \<Rightarrow> path \<Rightarrow> node \<Rightarrow> node \<Rightarrow> (node \<times> error option) option"
  and walk_live_names :: "nat \<Rightarrow> WalkFunc \<Rightarrow> path \<Rightarrow> name list \<Rightarrow> node
                            \<Rightarrow> (node \<times> error option) option"
where
  "walk_live 0 fn p info fs = None"
| "walk_live (Suc k) fn p info fs =
     (if \<not> IsDir info then Some (fn p (Inr info) fs)
      else
        (case Stat fs p of
           Inl e \<Rightarrow> Some (fn p (Inl (PathError e)) fs)
         | Inr (File m c) \<Rightarrow> Some (fn p (Inl (PathError ENOTDIR)) fs)
         | Inr (Dir m es) \<Rightarrow>
             (case fn p (Inr info) fs of
                (fs1, Some e) \<Rightarrow> Some (fs1, Some e)
              | (fs1, None) \<Rightarrow> walk_live_names k fn p (readDirNames es) fs1)))"
| "walk_live_names k fn p [] fs = Some (fs, None)"
| "walk_live_names k fn p (x # xs) fs =
     (case Stat fs (p @ [x]) of
        Inl e \<Rightarrow>
          (case fn (p @ [x]) (Inl (PathError e)) fs of
             (fs1, Some e') \<Rightarrow> Some (fs1, Some e')
           | (fs1, None) \<Rightarrow> walk_live_names k fn p xs fs1)
      | Inr fileInfo \<Rightarrow>
          (case walk_live k fn (p @ [x]) fileInfo fs of
             None \<Rightarrow> None
           | Some (fs1, Some e) \<Rightarrow> Some (fs1, Some e)
           | Some (fs1, None) \<Rightarrow> walk_live_names k fn p xs fs1))"
  by pat_completeness auto
termination
  by (relation "inv_image (less_than <*lex*> less_than)
        (\<lambda>a. case a of
                Inl (k, fn, p, info, fs) \<Rightarrow> (k, 0::nat)
              | Inr (k, fn, p, xs, fs) \<Rightarrow> (k, Suc (length xs)))")
     auto

definition Walk_live :: "nat \<Rightarrow> path \<Rightarrow> WalkFunc \<Rightarrow> node \<Rightarrow> (node \<times> error option) option" where
  "Walk_live k root fn fs =
     (case Stat fs root of
        Inl e \<Rightarrow> Some (fn root (Inl (PathError e)) fs)
      | Inr info \<Rightarrow> walk_live k fn root info fs)"

text \<open>
  The callback of \<open>copyDirectory\<close>: a directory is created at the same relative path with
  \<open>MkdirAll\<close> and the directory's mode; for anything else the parent is created with
  \<open>0755\<close> and the file is copied with its mode.
\<close>

definition copyDirectory_fn :: "FileMode \<Rightarrow> path \<Rightarrow> path \<Rightarrow> WalkFunc" where
  "copyDirectory_fn um src dst path r fs =
     (case r of
        Inl err \<Rightarrow> (fs, Some err)
      | Inr info \<Rightarrow>
          (case filepath_Rel src path of
             Inl err \<Rightarrow> (fs, Some err)
           | Inr relPath \<Rightarrow>
               (let dstPath = dst @ relPath in
                if IsDir info then
                  (case MkdirAll um fs dstPath (Mode info) of
                     (fs1, Some e) \<Rightarrow> (fs1, Some (PathError e))
                   | (fs1, None) \<Rightarrow> (fs1, None))
                else
                  (case MkdirAll um fs (filepath_Dir dstPath) 493 of
                     (fs1, Some e) \<Rightarrow> (fs1, Some (PathError e))
                   | (fs1, None) \<Rightarrow> copyFile um path dstPath (Mode info) fs1))))"

definition copyDirectory :: "FileMode \<Rightarrow> path \<Rightarrow> path \<Rightarrow> node \<Rightarrow> node \<times> error option" where
  "copyDirectory um src dst fs = Walk src (copyDirectory_fn um src dst) fs"


section \<open>The command-dispatch installer\<close>

text \<open>
  The three stages of \<open>installer.go\<close> (package \<open>main\<close>). Each tries the directory under
  \<open>artifacts\<close> first and falls back to the flat one when \<open>os.Stat\<close> reports that the first
  does not exist; it skips when the chosen one does not exist either.
\<close>

definition installKernelModules :: "FileMode \<Rightarrow> path \<Rightarrow> path \<Rightarrow> node \<Rightarrow> node \<times> error option" where
  "installKernelModules um overlayPath rootfsPath fs =
     (let sourceDir0 = overlayPath @ [''artifacts'', ''install'', ''kernel-modules''];
          sourceDir = (if IsNotExist (Stat fs sourceDir0)
                       then overlayPath @ [''install'', ''kernel-modules'']
                       else sourceDir0);
          targetDir = rootfsPath @ [''lib'', ''modules'']
      in if IsNotExist (Stat fs sourceDir) then (fs, None)
         else copyDirectory um sourceDir targetDir fs)"

definition installFirmware :: "FileMode \<Rightarrow> path \<Rightarrow> path \<Rightarrow> node \<Rightarrow> node \<times> error option" where
  "installFirmware um overlayPath rootfsPath fs =
     (let sourceDir0 = overlayPath @ [''artifacts'', ''install'', ''firmware''];
          sourceDir = (if IsNotExist (Stat fs sourceDir0)
                       then overlayPath @ [''install'', ''firmware'']
                       else sourceDir0);
          targetDir = rootfsPath @ [''lib'', ''firmware'']
      in if IsNotExist (Stat fs sourceDir) then (fs, None)
         else copyDirectory um sourceDir targetDir fs)"

definition installConfigFiles :: "FileMode \<Rightarrow> path \<Rightarrow> path \<Rightarrow> node \<Rightarrow> node \<times> error option" where
  "installConfigFiles um overlayPath rootfsPath fs =
     (let filesDir0 = overlayPath @ [''artifacts'', ''files''];
          filesDir = (if IsNotExist (Stat fs filesDir0)
                      then overlayPath @ [''files'']
                      else filesDir0)
      in if IsNotExist (Stat fs filesDir) then (fs, None)
         else copyDirectory um filesDir rootfsPath fs)"

datatype yaml = Scalar string | Sequence "yaml list" | Mapping "(string \<times> yaml) list"

record InstallOptions =
  InstallDisk :: string
  MountPrefix :: string
  ArtifactsPath :: string
  ExtraOptions :: "(string \<times> yaml) list"

text \<open>
  \<open>install\<close>. What the YAML decoder made of standard input is an argument (\<open>stdin\<close>): the
  options or the decoder's error. So are the answer of \<open>os.Executable\<close> and \<open>os.Args[0]\<close>.
\<close>

definition install :: "FileMode \<Rightarrow> error + InstallOptions \<Rightarrow> error + string \<Rightarrow> string \<Rightarrow> node
                         \<Rightarrow> node \<times> error option" where
  "install um stdin executable arg0 fs =
     (case stdin of
        Inl err \<Rightarrow> (fs, Some (Errorf ''failed to decode install options'' err))
      | Inr options \<Rightarrow>
          (let rootfsPath = toPath (MountPrefix options);
               executablePath = (case executable of Inr p \<Rightarrow> p | Inl err \<Rightarrow> arg0);
               installersDir = filepath_Dir (toPath executablePath);
               overlayPath = filepath_Dir installersDir
           in case installKernelModules um overlayPath rootfsPath fs of
                (fs1, Some err) \<Rightarrow> (fs1, Some (Errorf ''failed to install kernel modules'' err))
              | (fs1, None) \<Rightarrow>
                  (case installFirmware um overlayPath rootfsPath fs1 of
                     (fs2, Some err) \<Rightarrow> (fs2, Some (Errorf ''failed to install firmware'' err))
                   | (fs2, None) \<Rightarrow>
                       (case installConfigFiles um overlayPath rootfsPath fs2 of
                          (fs3, Some err) \<Rightarrow>
                            (fs3, Some (Errorf ''failed to install config files'' err))
                        | (fs3, None) \<Rightarrow> (fs3, None)))))"

text \<open>
  What a process leaves behind: the filesystem, the exit code and what it wrote to standard
  error, one entry for each \<open>Fprintf\<close>: the format's text and the error printed, if any.
\<close>

type_synonym stderr = "(string \<times> error option) list"

definition main :: "FileMode \<Rightarrow> string list \<Rightarrow> error + InstallOptions \<Rightarrow> error + string
                      \<Rightarrow> error option \<Rightarrow> node \<Rightarrow> node \<times> nat \<times> stderr" where
  "main um args stdin executable encodeErr fs =
     (if length args < 2 then
        (fs, 1, [(''Usage: <command>'', None), (''Commands: install'', None)])
      else
        (let command = args ! 1 in
         if command = ''install'' then
           (case install um stdin executable (args ! 0) fs of
              (fs1, Some err) \<Rightarrow> (fs1, 1, [(''Error'', Some err)])
            | (fs1, None) \<Rightarrow> (fs1, 0, []))
         else if command = ''get-options'' then
           (case encodeErr of
              Some err \<Rightarrow> (fs, 1, [(''Error encoding options'', Some err)])
            | None \<Rightarrow> (fs, 0, []))
         else (fs, 1, [(''Unknown command'', None)])))"

section \<open>The positional-argument installer\<close>

text \<open>
  The second program (package \<open>main\<close>, overlay path and rootfs path as arguments). Its
  stages look at the flat directories only; the copier is the same.
\<close>

definition installKernelModules_positional :: "FileMode \<Rightarrow> path \<Rightarrow> path \<Rightarrow> node \<Rightarrow> node \<times> error option" where
  "installKernelModules_positional um overlayPath rootfsPath fs =
     (let sourceDir = overlayPath @ [''install'', ''kernel-modules''];
          targetDir = rootfsPath @ [''lib'', ''modules'']
      in if IsNotExist (Stat fs sourceDir) then (fs, None)
         else copyDirectory um sourceDir targetDir fs)"

definition installFirmware_positional :: "FileMode \<Rightarrow> path \<Rightarrow> path \<Rightarrow> node \<Rightarrow> node \<times> error option" where
  "installFirmware_positional um overlayPath rootfsPath fs =
     (let sourceDir = overlayPath @ [''install'', ''firmware''];
          targetDir = rootfsPath @ [''lib'', ''firmware'']
      in if IsNotExist (Stat fs sourceDir) then (fs, None)
         else copyDirectory um sourceDir targetDir fs)"

definition installConfigFiles_positional :: "FileMode \<Rightarrow> path \<Rightarrow> path \<Rightarrow> node \<Rightarrow> node \<times> error option" where
  "installConfigFiles_positional um overlayPath rootfsPath fs =
     (let filesDir = overlayPath @ [''files'']
      in if IsNotExist (Stat fs filesDir) then (fs, None)
         else copyDirectory um filesDir rootfsPath fs)"

definition main_positional :: "FileMode \<Rightarrow> string list \<Rightarrow> node \<Rightarrow> node \<times> nat \<times> stderr" where
  "main_positional um args fs =
     (if length args < 3 then (fs, 1, [(''Usage: <overlay-path> <rootfs-path>'', None)])
      else
        (let overlayPath = toPath (args ! 1);
             rootfsPath = toPath (args ! 2)
         in case installKernelModules_positional um overlayPath rootfsPath fs of
              (fs1, Some err) \<Rightarrow> (fs1, 1, [(''Failed to install kernel modules'', Some err)])
            | (fs1, None) \<Rightarrow>
                (case installFirmware_positional um overlayPath rootfsPath fs1 of
                   (fs2, Some err) \<Rightarrow> (fs2, 1, [(''Failed to install firmware'', Some err)])
                 | (fs2, None) \<Rightarrow>
                     (case installConfigFiles_positional um overlayPath rootfsPath fs2 of
                        (fs3, Some err) \<Rightarrow>
                          (fs3, 1, [(''Failed to install config files'', Some err)])
                      | (fs3, None) \<Rightarrow> (fs3, 0, [])))))"

section \<open>The plugin-interface installer\<close>

text \<open>
  Package \<open>installer\<close>. Its stages stat the flat directory and return: the copying is not
  written. Of the imager's \<open>overlay.InstallerOptions\<close> only \<open>RootfsPath\<close> is read; the
  context is never used.
\<close>

record Installer =
  overlayPath :: string

record InstallerOptions =
  RootfsPath :: string

definition NewInstaller :: "string \<Rightarrow> Installer" where
  "NewInstaller p = \<lparr>overlayPath = p\<rparr>"

definition Installer_installKernelModules :: "Installer \<Rightarrow> InstallerOptions \<Rightarrow> node \<Rightarrow> node \<times> error option" where
  "Installer_installKernelModules i options fs =
     (let sourceDir = toPath (overlayPath i) @ [''install'', ''kernel-modules''];
          targetDir = toPath (RootfsPath options) @ [''lib'', ''modules'']
      in if IsNotExist (Stat fs sourceDir)
         then (fs, Some (ErrorfPath ''kernel modules directory not found'' sourceDir))
         else (fs, None))"

definition Installer_installFirmware :: "Installer \<Rightarrow> InstallerOptions \<Rightarrow> node \<Rightarrow> node \<times> error option" where
  "Installer_installFirmware i options fs =
     (let sourceDir = toPath (overlayPath i) @ [''install'', ''firmware''];
          targetDir = toPath (RootfsPath options) @ [''lib'', ''firmware'']
      in if IsNotExist (Stat fs sourceDir)
         then (fs, Some (ErrorfPath ''firmware directory not found'' sourceDir))
         else (fs, None))"

definition Installer_installConfigFiles :: "Installer \<Rightarrow> InstallerOptions \<Rightarrow> node \<Rightarrow> node \<times> error option" where
  "Installer_installConfigFiles i options fs =
     (let filesDir = toPath (overlayPath i) @ [''files'']
      in if IsNotExist (Stat fs filesDir) then (fs, None) else (fs, None))"

definition Installer_configureBootParams :: "Installer \<Rightarrow> InstallerOptions \<Rightarrow> node \<Rightarrow> node \<times> error option" where
  "Installer_configureBootParams i options fs = (fs, None)"

definition Installer_Install :: "Installer \<Rightarrow> InstallerOptions \<Rightarrow> node \<Rightarrow> node \<times> error option" where
  "Installer_Install i options fs =
     (case Installer_installKernelModules i options fs of
        (fs1, Some err) \<Rightarrow> (fs1, Some (Errorf ''failed to install kernel modules'' err))
      | (fs1, None) \<Rightarrow>
          (case Installer_installFirmware i options fs1 of
             (fs2, Some err) \<Rightarrow> (fs2, Some (Errorf ''failed to install firmware'' err))
           | (fs2, None) \<Rightarrow>
               (case Installer_installConfigFiles i options fs2 of
                  (fs3, Some err) \<Rightarrow> (fs3, Some (Errorf ''failed to install config files'' err))
                | (fs3, None) \<Rightarrow>
                    (case Installer_configureBootParams i options fs3 of
                       (fs4, Some err) \<Rightarrow>
                         (fs4, Some (Errorf ''failed to configure boot params'' err))
                     | (fs4, None) \<Rightarrow> (fs4, None)))))"


section \<open>What is at a path\<close>

text \<open>
  The view of the tree that the properties are stated in: at a path there is a regular file
  with its permission bits and content, a directory with its permission bits, or nothing.
\<close>

datatype entry = F FileMode string | D FileMode

fun entry_of :: "node \<Rightarrow> entry" where
  "entry_of (File m c) = F m c"
| "entry_of (Dir m es) = D m"

definition look :: "node \<Rightarrow> path \<Rightarrow> entry option" where
  "look fs p = (case Stat fs p of Inl e \<Rightarrow> None | Inr n \<Rightarrow> Some (entry_of n))"

text \<open>No component on the way to \<open>p\<close>, nor \<open>p\<close> itself, is a regular file.\<close>

definition no_file_on :: "node \<Rightarrow> path \<Rightarrow> bool" where
  "no_file_on fs p \<longleftrightarrow> (\<forall>q m c. prefix q p \<longrightarrow> look fs q \<noteq> Some (F m c))"

definition can_create :: "node \<Rightarrow> path \<Rightarrow> bool" where
  "can_create fs p \<longleftrightarrow>
     (\<exists>m c. look fs p = Some (F m c)) \<or>
     (look fs p = None \<and> p \<noteq> [] \<and> (\<exists>m. look fs (butlast p) = Some (D m)))"

fun kept_mode :: "entry option \<Rightarrow> FileMode \<Rightarrow> FileMode" where
  "kept_mode (Some (F m c)) new = m"
| "kept_mode (Some (D m)) new = new"
| "kept_mode None new = new"

text \<open>
  What a copy leaves at a destination path: the source's content in a file, and the
  permission bits the entry had if it was there before, else the source's less the umask.
\<close>

fun kept_dir_mode :: "entry option \<Rightarrow> FileMode \<Rightarrow> FileMode" where
  "kept_dir_mode (Some (D m)) new = m"
| "kept_dir_mode (Some (F m c)) new = new"
| "kept_dir_mode None new = new"

fun copied :: "FileMode \<Rightarrow> entry \<Rightarrow> entry option \<Rightarrow> entry" where
  "copied um (F m c) old = F (kept_mode old (m AND NOT um)) c"
| "copied um (D m) old = D (kept_dir_mode old (m AND NOT um))"

text \<open>
  \<open>intact s p n\<close>: the tree \<open>n\<close> is what \<open>s\<close> has at \<open>p\<close>. \<open>placed um s s' p n\<close>: below
  \<open>p\<close>, \<open>s'\<close> is \<open>s\<close> with the entries of \<open>n\<close> copied in. \<open>frame s s' p\<close>: away from \<open>p\<close>,
  \<open>s'\<close> is \<open>s\<close>, but for missing directories on the way to \<open>p\<close>.
\<close>

definition intact :: "node \<Rightarrow> path \<Rightarrow> node \<Rightarrow> bool" where
  "intact s p n \<longleftrightarrow> (\<forall>r e. look n r = Some e \<longrightarrow> look s (p @ r) = Some e)"

definition placed :: "FileMode \<Rightarrow> node \<Rightarrow> node \<Rightarrow> path \<Rightarrow> node \<Rightarrow> bool" where
  "placed um s s' p n \<longleftrightarrow>
     (\<forall>r. look s' (p @ r) =
            (case look n r of
               Some e \<Rightarrow> Some (copied um e (look s (p @ r)))
             | None \<Rightarrow> look s (p @ r)))"

definition frame :: "node \<Rightarrow> node \<Rightarrow> path \<Rightarrow> bool" where
  "frame s s' p \<longleftrightarrow>
     (\<forall>q. \<not> prefix p q \<longrightarrow> (look s q \<noteq> None \<or> \<not> prefix q p) \<longrightarrow> look s' q = look s q)"





text \<open>
  What stays when the installer writes. \<open>same_kind e e'\<close>: a file is still a file, a
  directory still a directory, with the same permission bits (the content of a file may
  have been written anew). \<open>keeps s s'\<close>: every entry of \<open>s\<close> is in \<open>s'\<close>, of the same
  kind. \<open>kept_but d s s'\<close>: moreover every entry of \<open>s\<close> other than the one at \<open>d\<close> is
  unchanged in \<open>s'\<close>. \<open>kept_outside d s s'\<close>: every entry of \<open>s\<close> that is not at \<open>d\<close> or
  below it is unchanged in \<open>s'\<close>. \<open>of_kind n e\<close>: the entry \<open>e\<close> is a file if \<open>n\<close> is one,
  and a directory if \<open>n\<close> is one.
\<close>

fun same_kind :: "entry \<Rightarrow> entry \<Rightarrow> bool" where
  "same_kind (F m c) (F m0 c0) = (m0 = m)"
| "same_kind (D m) (D m0) = (m0 = m)"
| "same_kind (F m c) (D m0) = False"
| "same_kind (D m) (F m0 c0) = False"

definition keeps :: "node \<Rightarrow> node \<Rightarrow> bool" where
  "keeps s s' \<longleftrightarrow> (\<forall>q e. look s q = Some e \<longrightarrow> (\<exists>e'. look s' q = Some e' \<and> same_kind e e'))"

definition kept_but :: "path \<Rightarrow> node \<Rightarrow> node \<Rightarrow> bool" where
  "kept_but d s s' \<longleftrightarrow>
     (\<forall>q e. look s q = Some e \<longrightarrow>
        (\<exists>e'. look s' q = Some e' \<and> same_kind e e') \<and> (q \<noteq> d \<longrightarrow> look s' q = Some e))"

definition kept_outside :: "path \<Rightarrow> node \<Rightarrow> node \<Rightarrow> bool" where
  "kept_outside d s s' \<longleftrightarrow> (\<forall>q e. look s q = Some e \<and> \<not> prefix d q \<longrightarrow> look s' q = Some e)"



section \<open>Example filesystems\<close>

text \<open>
  Small filesystems the theorems are tried on: an overlay and a target root, with the
  state an installation leaves where it matters.
\<close>

definition ex_blocked :: node where
  "ex_blocked =
     Dir 493
      [(''overlay'', Dir 493 [(''install'', Dir 493
          [(''kernel-modules'', Dir 493 [(''m.ko'', File 420 ''m'')]),
           (''firmware'', Dir 493 [(''f.bin'', File 420 ''f'')])])]),
       (''rootfs'', Dir 493 [(''lib'', Dir 493 [(''firmware'', File 420 ''blocker'')])])]"

definition ex_blocked_after :: node where
  "ex_blocked_after =
     Dir 493
      [(''overlay'', Dir 493 [(''install'', Dir 493
          [(''kernel-modules'', Dir 493 [(''m.ko'', File 420 ''m'')]),
           (''firmware'', Dir 493 [(''f.bin'', File 420 ''f'')])])]),
       (''rootfs'', Dir 493 [(''lib'', Dir 493
          [(''firmware'', File 420 ''blocker''),
           (''modules'', Dir 493 [(''m.ko'', File 420 ''m'')])])])]"


definition ex_config_only_after :: node where
  "ex_config_only_after =
     Dir 493
      [(''overlay'', Dir 493 [(''files'', Dir 493
          [(''etc'', Dir 493 [(''nvidia.conf'', File 420 ''options'')])])]),
       (''rootfs'', Dir 493 [(''etc'', Dir 493 [(''nvidia.conf'', File 420 ''options'')])])]"

definition ex_file_candidate :: node where
  "ex_file_candidate =
     Dir 493
      [(''overlay'', Dir 493 [(''artifacts'', Dir 493 [(''install'', Dir 493
          [(''kernel-modules'', File 420 ''x'')])])]),
       (''rootfs'', Dir 493 [])]"

definition ex_file_candidate_after :: node where
  "ex_file_candidate_after =
     Dir 493
      [(''overlay'', Dir 493 [(''artifacts'', Dir 493 [(''install'', Dir 493
          [(''kernel-modules'', File 420 ''x'')])])]),
       (''rootfs'', Dir 493 [(''lib'', Dir 493 [(''modules'', File 420 ''x'')])])]"

definition ex_options :: InstallOptions where
  "ex_options = \<lparr>InstallDisk = ''/dev/sda'', MountPrefix = ''/rootfs'', ArtifactsPath = [],
                  ExtraOptions = []\<rparr>"

definition ex_legacy :: node where
  "ex_legacy =
     Dir 493
      [(''overlay'', Dir 493 [(''install'', Dir 493
          [(''kernel-modules'', Dir 493 [(''m.ko'', File 420 ''m'')]),
           (''firmware'', Dir 493 [])])]),
       (''rootfs'', Dir 493 [])]"

definition ex_legacy_after :: node where
  "ex_legacy_after =
     Dir 493
      [(''overlay'', Dir 493 [(''install'', Dir 493
          [(''kernel-modules'', Dir 493 [(''m.ko'', File 420 ''m'')]),
           (''firmware'', Dir 493 [])])]),
       (''rootfs'', Dir 493 [(''lib'', Dir 493
          [(''modules'', Dir 493 [(''m.ko'', File 420 ''m'')]),
           (''firmware'', Dir 493 [])])])]"

definition ex_current :: node where
  "ex_current =
     Dir 493
      [(''overlay'', Dir 493 [(''artifacts'', Dir 493 [(''install'', Dir 493
          [(''kernel-modules'', Dir 493 [(''m.ko'', File 420 ''m'')])])])]),
       (''rootfs'', Dir 493 [])]"

definition ex_current_after :: node where
  "ex_current_after =
     Dir 493
      [(''overlay'', Dir 493 [(''artifacts'', Dir 493 [(''install'', Dir 493
          [(''kernel-modules'', Dir 493 [(''m.ko'', File 420 ''m'')])])])]),
       (''rootfs'', Dir 493 [(''lib'', Dir 493
          [(''modules'', Dir 493 [(''m.ko'', File 420 ''m'')])])])]"














text \<open>
  \<open>agree_at d s1 s2\<close>: the two filesystems have the same entries on the way to \<open>d\<close>, at
  \<open>d\<close> and below it.
\<close>

definition agree_at :: "path \<Rightarrow> node \<Rightarrow> node \<Rightarrow> bool" where
  "agree_at d s1 s2 \<longleftrightarrow> (\<forall>q. prefix q d \<or> prefix d q \<longrightarrow> look s1 q = look s2 q)"

text \<open>\<open>same_view n s p\<close>: below \<open>p\<close>, \<open>s\<close> has what the tree \<open>n\<close> has, no more and no less.\<close>

definition same_view :: "node \<Rightarrow> node \<Rightarrow> path \<Rightarrow> bool" where
  "same_view n s p \<longleftrightarrow> (\<forall>r. look s (p @ r) = look n r)"

declare MkdirAll.simps [simp del]

section \<open>Properties of the filesystem operations\<close>

lemma look_Nil [simp]: "look n [] = Some (entry_of n)"
  by (simp add: look_def)

lemma look_File_Cons [simp]: "look (File m c) (x # xs) = None"
  by (simp add: look_def)

lemma look_Dir_Cons [simp]:
  "look (Dir m es) (x # xs) = (case map_of es x of None \<Rightarrow> None | Some n \<Rightarrow> look n xs)"
  by (simp add: look_def split: option.splits)

lemma map_of_snoc:
  "map_of (es @ [(x, n)]) y = (case map_of es y of None \<Rightarrow> (if y = x then Some n else None) | Some v \<Rightarrow> Some v)"
  by (induction es) auto

lemma Stat_append:
  "Stat fs (p @ q) = (case Stat fs p of Inl e \<Rightarrow> Inl e | Inr n \<Rightarrow> Stat n q)"
  by (induction fs p rule: Stat.induct) (auto split: option.splits)

lemma look_append:
  "look fs (p @ q) = (case Stat fs p of Inl e \<Rightarrow> None | Inr n \<Rightarrow> look n q)"
  by (simp add: look_def Stat_append split: sum.splits)

lemma Mkdir_look:
  "Mkdir um fs p perm = Inr fs' \<Longrightarrow>
   look fs' q = (if q = p then Some (D (perm AND NOT um)) else look fs q)"
proof (induction um fs p perm arbitrary: fs' q rule: Mkdir.induct)
  case (1 um n perm)
  then show ?case by simp
next
  case (2 um m c x xs perm)
  then show ?case by simp
next
  case (3 um m es x xs perm)
  show ?case
  proof (cases "map_of es x")
    case None
    with 3(2) have xs: "xs = []" and fs': "fs' = Dir m (es @ [(x, Dir (perm AND NOT um) [])])"
      by (auto split: if_splits)
    show ?thesis
    proof (cases q)
      case Nil
      then show ?thesis by (simp add: fs')
    next
      case (Cons y ys)
      then show ?thesis using None
        by (cases ys) (auto simp: fs' xs map_of_snoc split: option.splits if_splits)
    qed
  next
    case (Some n)
    with 3(2) obtain n' where xs: "xs \<noteq> []" and n': "Mkdir um n xs perm = Inr n'"
      and fs': "fs' = Dir m (AList.update x n' es)"
      by (auto split: if_splits sum.splits)
    have IH: "look n' r = (if r = xs then Some (D (perm AND NOT um)) else look n r)" for r
      using 3(1)[OF Some xs n'] .
    show ?thesis
    proof (cases q)
      case Nil
      then show ?thesis by (simp add: fs')
    next
      case (Cons y ys)
      then show ?thesis using Some
        by (auto simp: fs' IH update_conv' split: option.splits)
    qed
  qed
qed

lemma OpenFile_look:
  "OpenFile um fs p perm = Inr fs' \<Longrightarrow>
   look fs' q = (if q = p then Some (F (case look fs p of Some (F m c) \<Rightarrow> m | _ \<Rightarrow> perm AND NOT um) [])
                 else look fs q)"
proof (induction um fs p perm arbitrary: fs' q rule: OpenFile.induct)
  case (1 um m c perm)
  then show ?case by (cases q) auto
next
  case (2 um m es perm)
  then show ?case by simp
next
  case (3 um m c x xs perm)
  then show ?case by simp
next
  case (4 um m es x xs perm)
  show ?case
  proof (cases "map_of es x")
    case None
    with 4(2) have xs: "xs = []" and fs': "fs' = Dir m (es @ [(x, File (perm AND NOT um) [])])"
      by (auto split: if_splits)
    show ?thesis
    proof (cases q)
      case Nil
      then show ?thesis by (simp add: fs')
    next
      case (Cons y ys)
      then show ?thesis using None
        by (cases ys) (auto simp: fs' xs map_of_snoc split: option.splits if_splits)
    qed
  next
    case (Some n)
    with 4(2) obtain n' where n': "OpenFile um n xs perm = Inr n'"
      and fs': "fs' = Dir m (AList.update x n' es)"
      by (auto split: sum.splits)
    note IH = 4(1)[OF Some n']
    show ?thesis
    proof (cases q)
      case Nil
      then show ?thesis by (simp add: fs')
    next
      case (Cons y ys)
      then show ?thesis using Some
        by (auto simp: fs' IH update_conv' split: option.splits)
    qed
  qed
qed

lemma Write_look:
  "Write fs p d = Inr fs' \<Longrightarrow>
   (\<exists>m c. look fs p = Some (F m c) \<and>
      (\<forall>q. look fs' q = (if q = p then Some (F m d) else look fs q)))"
proof (induction fs p d arbitrary: fs' rule: Write.induct)
  case (1 m c d)
  then show ?case by (auto simp: neq_Nil_conv)
next
  case (2 m es d)
  then show ?case by simp
next
  case (3 m c x xs d)
  then show ?case by simp
next
  case (4 m es x xs d)
  from 4(2) obtain n n' where n: "map_of es x = Some n" and n': "Write n xs d = Inr n'"
    and fs': "fs' = Dir m (AList.update x n' es)"
    by (auto split: option.splits sum.splits)
  from 4(1)[OF n n'] obtain m0 c0 where a: "look n xs = Some (F m0 c0)"
    and b: "\<And>r. look n' r = (if r = xs then Some (F m0 d) else look n r)"
    by blast
  have "look fs' q = (if q = x # xs then Some (F m0 d) else look (Dir m es) q)" for q
    by (cases q) (auto simp: fs' b n update_conv' split: option.splits)
  with a n show ?case by auto
qed


lemma look_below_exists:
  "look fs (p @ x # xs) = Some e \<Longrightarrow> \<exists>m. look fs p = Some (D m)"
proof -
  assume a: "look fs (p @ x # xs) = Some e"
  then obtain n where n: "Stat fs p = Inr n" and "look n (x # xs) = Some e"
    by (auto simp: look_append split: sum.splits)
  then have "\<exists>m. entry_of n = D m" by (cases n) auto
  with n show ?thesis by (auto simp: look_def)
qed

lemma look_prefix_exists:
  assumes "look fs p = Some e" and "prefix q p" and "q \<noteq> p"
  shows "\<exists>m. look fs q = Some (D m)"
proof -
  from assms(2) obtain zs where zs: "p = q @ zs" by (auto simp: prefix_def)
  with assms(3) have "zs \<noteq> []" by auto
  with zs obtain x xs where "p = q @ x # xs" by (cases zs) auto
  with assms(1) show ?thesis by (auto dest: look_below_exists)
qed

lemma look_None_below:
  "look fs p = None \<Longrightarrow> look fs (p @ q) = None"
  by (simp add: look_def Stat_append split: sum.splits)

lemma Mkdir_ok:
  "(\<exists>fs'. Mkdir um fs p perm = Inr fs') \<longleftrightarrow>
   p \<noteq> [] \<and> (\<exists>m. look fs (butlast p) = Some (D m)) \<and> look fs p = None"
proof (induction um fs p perm rule: Mkdir.induct)
  case (1 um n perm)
  then show ?case by simp
next
  case (2 um m c x xs perm)
  then show ?case by (cases xs) auto
next
  case (3 um m es x xs perm)
  show ?case
  proof (cases "map_of es x")
    case None
    then show ?thesis by (cases xs) auto
  next
    case (Some n)
    show ?thesis
    proof (cases "xs = []")
      case True
      then show ?thesis using Some by simp
    next
      case False
      with 3[OF Some False] Some show ?thesis
        by (auto split: sum.splits)
    qed
  qed
qed

lemma OpenFile_ok:
  "(\<exists>fs'. OpenFile um fs p perm = Inr fs') \<longleftrightarrow>
   (\<exists>m c. look fs p = Some (F m c)) \<or>
   (look fs p = None \<and> p \<noteq> [] \<and> (\<exists>m. look fs (butlast p) = Some (D m)))"
proof (induction um fs p perm rule: OpenFile.induct)
  case (1 um m c perm)
  then show ?case by simp
next
  case (2 um m es perm)
  then show ?case by simp
next
  case (3 um m c x xs perm)
  then show ?case by (cases xs) auto
next
  case (4 um m es x xs perm)
  show ?case
  proof (cases "map_of es x")
    case None
    then show ?thesis by (cases xs) auto
  next
    case (Some n)
    show ?thesis
    proof (cases "xs = []")
      case True
      then show ?thesis using Some 4[OF Some] by (cases n) (auto split: sum.splits)
    next
      case False
      with 4[OF Some] Some show ?thesis
        by (auto split: sum.splits)
    qed
  qed
qed

lemma Write_ok:
  "(\<exists>fs'. Write fs p d = Inr fs') \<longleftrightarrow> (\<exists>m c. look fs p = Some (F m c))"
proof (induction fs p d rule: Write.induct)
  case (4 m es x xs d)
  show ?case
  proof (cases "map_of es x")
    case None
    then show ?thesis by simp
  next
    case (Some n)
    with 4[OF Some] show ?thesis by (auto split: sum.splits)
  qed
qed simp_all


lemma prefix_butlast_iff:
  "p \<noteq> [] \<Longrightarrow> prefix q p \<longleftrightarrow> q = p \<or> prefix q (butlast p)"
  by (metis append_butlast_last_id prefix_snoc)

lemma MkdirAll_spec:
  "MkdirAll um fs p perm = (fs', r) \<Longrightarrow>
     (r = None \<longleftrightarrow> no_file_on fs p) \<and>
     (r \<noteq> None \<longrightarrow> fs' = fs) \<and>
     (r = None \<longrightarrow>
        (\<forall>q. look fs' q = (if prefix q p \<and> look fs q = None
                             then Some (D (perm AND NOT um)) else look fs q)))"
proof (induction um fs p perm arbitrary: fs' r rule: MkdirAll.induct)
  case (1 um fs p perm)
  show ?case
  proof (cases "Stat fs p")
    case (Inr dir)
    then have lk: "look fs p = Some (entry_of dir)" by (simp add: look_def)
    show ?thesis
    proof (cases "IsDir dir")
      case True
      then obtain m where m: "look fs p = Some (D m)" using lk by (cases dir) auto
      from True Inr 1(2) have res: "fs' = fs" "r = None"
        by (auto simp: MkdirAll.simps[of um fs p perm])
      have ex: "\<exists>m'. look fs q = Some (D m')" if "prefix q p" for q
        using that m look_prefix_exists[OF m that] by (cases "q = p") auto
      then have "no_file_on fs p" by (fastforce simp: no_file_on_def)
      moreover have "look fs q = (if prefix q p \<and> look fs q = None
                             then Some (D (perm AND NOT um)) else look fs q)" for q
        using ex[of q] by auto
      ultimately show ?thesis using res by simp
    next
      case False
      then obtain m c where m: "look fs p = Some (F m c)" using lk by (cases dir) auto
      from False Inr 1(2) have res: "fs' = fs" "r = Some ENOTDIR"
        by (auto simp: MkdirAll.simps[of um fs p perm])
      from m have "\<not> no_file_on fs p" by (auto simp: no_file_on_def)
      then show ?thesis using res by simp
    qed
  next
    case (Inl e0)
    then have pn: "look fs p = None" by (simp add: look_def)
    from Inl have p: "p \<noteq> []" by (cases p) auto
    obtain fs1 r1 where rec: "MkdirAll um fs (butlast p) perm = (fs1, r1)"
      by (cases "MkdirAll um fs (butlast p) perm")
    note IH = 1(1)[OF Inl rec]
    have nf: "no_file_on fs p \<longleftrightarrow> no_file_on fs (butlast p)"
      using pn by (auto simp: no_file_on_def prefix_butlast_iff[OF p])
    show ?thesis
    proof (cases r1)
      case (Some e)
      with Inl rec 1(2) have res: "fs' = fs1" "r = Some e"
        by (auto simp: MkdirAll.simps[of um fs p perm])
      with IH Some nf show ?thesis by simp
    next
      case None
      with IH have ok: "no_file_on fs (butlast p)"
        and lk1: "\<And>q. look fs1 q = (if prefix q (butlast p) \<and> look fs q = None
                             then Some (D (perm AND NOT um)) else look fs q)"
        by auto
      have "\<exists>m. look fs1 (butlast p) = Some (D m)"
      proof (cases "look fs (butlast p)")
        case None
        then show ?thesis by (simp add: lk1)
      next
        case (Some e)
        with ok show ?thesis by (cases e) (auto simp: no_file_on_def lk1)
      qed
      moreover have "\<not> prefix p (butlast p)"
        using p by (metis append_butlast_last_id prefix_order.dual_order.antisym prefix_snoc snoc_eq_iff_butlast same_append_eq self_append_conv prefix_order.order_refl)
      then have "look fs1 p = None" using pn by (simp add: lk1)
      ultimately obtain fs2 where mk: "Mkdir um fs1 p perm = Inr fs2"
        using Mkdir_ok[of um fs1 p perm] p by blast
      with None Inl rec 1(2) have res: "fs' = fs2" "r = None"
        by (auto simp: MkdirAll.simps[of um fs p perm])
      have "look fs2 q = (if prefix q p \<and> look fs q = None
                             then Some (D (perm AND NOT um)) else look fs q)" for q
        using Mkdir_look[OF mk, of q] pn
        by (auto simp: lk1 prefix_butlast_iff[OF p])
      with res nf ok show ?thesis by simp
    qed
  qed
qed

lemma look_F_iff: "look fs p = Some (F m c) \<longleftrightarrow> Stat fs p = Inr (File m c)"
proof (cases "Stat fs p")
  case (Inl e)
  then show ?thesis by (simp add: look_def)
next
  case (Inr n)
  then show ?thesis by (cases n) (auto simp: look_def)
qed

lemma look_None_iff: "look fs p = None \<longleftrightarrow> (\<exists>e. Stat fs p = Inl e)"
  by (cases "Stat fs p") (auto simp: look_def)

lemma copyFile_spec:
  assumes src: "look fs src = Some (F m c)"
    and run: "copyFile um src dst mode fs = (fs', r)"
  shows "(r = None \<longleftrightarrow> can_create fs dst) \<and>
         (r \<noteq> None \<longrightarrow> fs' = fs) \<and>
         (r = None \<longrightarrow>
            (\<forall>q. look fs' q =
               (if q = dst
                then Some (F (kept_mode (look fs dst) (mode AND NOT um)) (if src = dst then [] else c))
                else look fs q)))"
proof -
  from src have st: "Stat fs src = Inr (File m c)" by (simp add: look_F_iff)
  show ?thesis
  proof (cases "OpenFile um fs dst mode")
    case (Inl e)
    then have "\<not> can_create fs dst"
      using OpenFile_ok[of um fs dst mode] by (auto simp: can_create_def)
    moreover from Inl st run have "fs' = fs" "r = Some (PathError e)"
      by (auto simp: copyFile_def)
    ultimately show ?thesis by simp
  next
    case (Inr fs1)
    then have cc: "can_create fs dst"
      using OpenFile_ok[of um fs dst mode] by (auto simp: can_create_def)
    have l1: "look fs1 q = (if q = dst then Some (F (kept_mode (look fs dst) (mode AND NOT um)) [])
                            else look fs q)" for q
    proof -
      have "(case look fs dst of Some (F m c) \<Rightarrow> m | _ \<Rightarrow> mode AND NOT um)
              = kept_mode (look fs dst) (mode AND NOT um)"
        by (cases "(look fs dst, mode AND NOT um)" rule: kept_mode.cases) auto
      then show ?thesis using OpenFile_look[OF Inr, of q] by simp
    qed
    define d where "d = (if src = dst then [] else c)"
    have "\<exists>m1. look fs1 src = Some (F m1 d)" using src by (simp add: l1 d_def)
    then obtain m1 where st1: "Stat fs1 src = Inr (File m1 d)" by (auto simp: look_F_iff)
    have "\<exists>m0 c0. look fs1 dst = Some (F m0 c0)" by (simp add: l1)
    then obtain fs2 where w: "Write fs1 dst d = Inr fs2"
      using Write_ok[of fs1 dst d] by blast
    from Write_look[OF w] have l2: "look fs2 q = (if q = dst
          then Some (F (kept_mode (look fs dst) (mode AND NOT um)) d) else look fs q)" for q
      by (auto simp: l1)
    from Inr st st1 w run have "fs' = fs2" "r = None"
      by (auto simp: copyFile_def)
    with cc l2 show ?thesis by (simp add: d_def)
  qed
qed

lemma Rel_below [simp]: "filepath_Rel src (src @ rel) = Inr rel"
  by (simp add: filepath_Rel_def)

lemma not_prefix_longer: "length q < length p \<Longrightarrow> \<not> prefix p q"
  by (auto dest: prefix_length_le)

lemma not_prefix_butlast: "p \<noteq> [] \<Longrightarrow> \<not> prefix p (butlast p)"
  by (rule not_prefix_longer) simp

lemma not_prefix_below_butlast: "\<not> prefix (d @ y # ys) (butlast d)"
  by (rule not_prefix_longer) simp

lemma prefix_butlast_prefix: "prefix q (butlast d) \<Longrightarrow> prefix q d"
  using prefixeq_butlast prefix_order.trans by blast

lemma not_prefix_child: "\<not> prefix d q \<or> q = d \<Longrightarrow> \<not> prefix (d @ [x]) q"
  by (auto dest: append_prefixD simp: not_prefix_longer)

lemma prefix_of_child: "prefix q (d @ [x]) \<Longrightarrow> \<not> prefix (d @ [x]) q \<Longrightarrow> prefix q d"
  by (auto simp: prefix_snoc)

lemma not_nested_append:
  "\<not> prefix src dst \<Longrightarrow> \<not> prefix dst src \<Longrightarrow> \<not> prefix (dst @ a) (src @ b)"
  by (metis append_prefixD prefix_append prefix_same_cases prefix_order.order_refl prefix_prefix)

lemma fn_dir:
  assumes "copyDirectory_fn um src dst (src @ rel) (Inr (Dir m es)) s = (s', r)"
  shows "(r = None \<longleftrightarrow> no_file_on s (dst @ rel)) \<and>
         (r \<noteq> None \<longrightarrow> s' = s) \<and>
         (r = None \<longrightarrow>
            (\<forall>q. look s' q = (if prefix q (dst @ rel) \<and> look s q = None
                               then Some (D (m AND NOT um)) else look s q)))"
proof -
  obtain s1 r1 where mk: "MkdirAll um s (dst @ rel) m = (s1, r1)"
    by (cases "MkdirAll um s (dst @ rel) m")
  with assms have "s' = s1" "r = map_option PathError r1"
    by (auto simp: copyDirectory_fn_def split: option.splits)
  with MkdirAll_spec[OF mk] show ?thesis by auto
qed

lemma fn_file_ok:
  assumes src: "look s (src @ rel) = Some (F m c)" and ne: "src @ rel \<noteq> dst @ rel"
    and run: "copyDirectory_fn um src dst (src @ rel) (Inr (File m c)) s = (s', None)"
  shows "look s' q =
           (if q = dst @ rel then Some (F (kept_mode (look s (dst @ rel)) (m AND NOT um)) c)
            else if prefix q (butlast (dst @ rel)) \<and> look s q = None
                 then Some (D (493 AND NOT um))
                 else look s q)"
proof -
  obtain s1 r1 where mk: "MkdirAll um s (butlast (dst @ rel)) 493 = (s1, r1)"
    by (cases "MkdirAll um s (butlast (dst @ rel)) 493")
  with run have r1: "r1 = None" and cf: "copyFile um (src @ rel) (dst @ rel) m s1 = (s', None)"
    by (auto simp: copyDirectory_fn_def filepath_Dir_def split: option.splits)
  from MkdirAll_spec[OF mk] r1
  have l1: "look s1 q = (if prefix q (butlast (dst @ rel)) \<and> look s q = None
                          then Some (D (493 AND NOT um)) else look s q)" for q
    by simp
  have src1: "look s1 (src @ rel) = Some (F m c)" using src by (simp add: l1)
  have dst1: "look s1 (dst @ rel) = look s (dst @ rel)"
  proof (cases "dst @ rel = []")
    case True
    then show ?thesis using l1[of "[]"] by simp
  next
    case False
    then have "\<not> prefix (dst @ rel) (butlast (dst @ rel))"
      by (rule not_prefix_butlast)
    then show ?thesis by (simp add: l1)
  qed
  from copyFile_spec[OF src1 cf] ne
  have "look s' q = (if q = dst @ rel
          then Some (F (kept_mode (look s1 (dst @ rel)) (m AND NOT um)) c) else look s1 q)"
    by simp
  then show ?thesis by (simp add: dst1 l1)
qed


lemma child_prefix_iff [simp]:
  "prefix (d @ [x]) (d @ y # r) \<longleftrightarrow> x = y"
  by simp

lemma readDirNames_set: "set (readDirNames es) = fst ` set es"
  by (simp add: readDirNames_def)

lemma readDirNames_distinct: "distinct (readDirNames es)"
  by (simp add: readDirNames_def)

lemma map_of_in_names: "map_of es x = Some n \<Longrightarrow> x \<in> set (readDirNames es)"
  by (auto simp: readDirNames_set dest: map_of_SomeD intro: rev_image_eqI)

lemma walk_copy_ok:
  assumes nn: "\<not> prefix src dst" "\<not> prefix dst src"
  shows "walk fn pth n s = (s', None) \<Longrightarrow> fn = copyDirectory_fn um src dst \<Longrightarrow>
           pth = src @ rel \<Longrightarrow> intact s (src @ rel) n \<Longrightarrow>
           placed um s s' (dst @ rel) n \<and> frame s s' (dst @ rel)"
    and "walk_names fn pth es xs s = (s', None) \<Longrightarrow> fn = copyDirectory_fn um src dst \<Longrightarrow>
           pth = src @ rel \<Longrightarrow> distinct xs \<Longrightarrow>
           (\<forall>x\<in>set xs. \<forall>n. map_of es x = Some n \<longrightarrow> intact s (src @ rel @ [x]) n) \<Longrightarrow>
           (\<exists>m. look s (dst @ rel) = Some (D m)) \<Longrightarrow>
           (\<forall>x\<in>set xs. \<forall>n. map_of es x = Some n \<longrightarrow> placed um s s' (dst @ rel @ [x]) n) \<and>
           (\<forall>q. (\<forall>x\<in>set xs. \<not> prefix (dst @ rel @ [x]) q) \<longrightarrow> look s' q = look s q)"
proof (induction fn pth n s and fn pth es xs s arbitrary: s' rel and s' rel
        rule: walk_walk_names.induct)
  case (1 fn p m c fs)
  have src: "look fs (src @ rel) = Some (F m c)"
    using 1(4)[unfolded intact_def, rule_format, of "[]" "F m c"] by simp
  have ne: "src @ rel \<noteq> dst @ rel" using nn by auto
  from 1(1,2,3) have run: "copyDirectory_fn um src dst (src @ rel) (Inr (File m c)) fs = (s', None)"
    by simp
  note lk = fn_file_ok[OF src ne run]
  have "placed um fs s' (dst @ rel) (File m c)"
    unfolding placed_def
  proof
    fix r
    show "look s' ((dst @ rel) @ r) =
            (case look (File m c) r of
               Some e \<Rightarrow> Some (copied um e (look fs ((dst @ rel) @ r)))
             | None \<Rightarrow> look fs ((dst @ rel) @ r))"
    proof (cases r)
      case Nil
      then show ?thesis by (simp add: lk)
    next
      case (Cons y ys)
      have "\<not> prefix (dst @ rel @ y # ys) (butlast (dst @ rel))"
        using not_prefix_below_butlast[of "dst @ rel" y ys] by simp
      then show ?thesis using Cons by (simp add: lk)
    qed
  qed
  moreover have "frame fs s' (dst @ rel)"
    unfolding frame_def
  proof (intro allI impI)
    fix q
    assume a: "\<not> prefix (dst @ rel) q" and b: "look fs q \<noteq> None \<or> \<not> prefix q (dst @ rel)"
    from a have "q \<noteq> dst @ rel" by auto
    moreover have "\<not> (prefix q (butlast (dst @ rel)) \<and> look fs q = None)"
      using b by (auto dest: prefix_butlast_prefix)
    ultimately show "look s' q = look fs q" by (simp add: lk)
  qed
  ultimately show ?case by simp
next
  case (2 fn p m es fs)
  obtain s1 r1 where f: "copyDirectory_fn um src dst (src @ rel) (Inr (Dir m es)) fs = (s1, r1)"
    by (cases "copyDirectory_fn um src dst (src @ rel) (Inr (Dir m es)) fs")
  with 2(2,3,4) have r1: "r1 = None"
    and wn: "walk_names fn p es (readDirNames es) s1 = (s', None)"
    by (auto split: option.splits)
  from fn_dir[OF f] r1 have nf: "no_file_on fs (dst @ rel)"
    and l1: "\<And>q. look s1 q = (if prefix q (dst @ rel) \<and> look fs q = None
                               then Some (D (m AND NOT um)) else look fs q)"
    by auto
  have kept: "look s1 q = look fs q" if "look fs q \<noteq> None \<or> \<not> prefix q (dst @ rel)" for q
    using that by (auto simp: l1)
  have d1: "look s1 (dst @ rel) = Some (copied um (D m) (look fs (dst @ rel)))"
  proof (cases "look fs (dst @ rel)")
    case None
    then show ?thesis by (simp add: l1)
  next
    case (Some e)
    with nf show ?thesis by (cases e) (auto simp: no_file_on_def l1)
  qed
  have int1: "\<forall>x\<in>set (readDirNames es). \<forall>n. map_of es x = Some n \<longrightarrow> intact s1 (src @ rel @ [x]) n"
  proof (intro ballI allI impI)
    fix x n assume n: "map_of es x = Some n"
    show "intact s1 (src @ rel @ [x]) n"
      unfolding intact_def
    proof (intro allI impI)
      fix r e assume "look n r = Some e"
      with n have "look (Dir m es) (x # r) = Some e" by simp
      with 2(5) have "look fs ((src @ rel) @ x # r) = Some e"
        unfolding intact_def by blast
      then show "look s1 ((src @ rel @ [x]) @ r) = Some e" by (simp add: kept)
    qed
  qed
  from f r1 2(3,4) have pre: "(s1, None) = fn p (Inr (Dir m es)) fs" by simp
  from 2(1)[OF pre refl wn 2(3,4) readDirNames_distinct int1] d1
  have ch: "\<And>x n. map_of es x = Some n \<Longrightarrow> placed um s1 s' (dst @ rel @ [x]) n"
    and fr: "\<And>q. (\<forall>x\<in>set (readDirNames es). \<not> prefix (dst @ rel @ [x]) q) \<Longrightarrow> look s' q = look s1 q"
    by (auto dest: map_of_in_names)
  have out: "look s' q = look s1 q" if "\<not> prefix (dst @ rel) q \<or> q = dst @ rel" for q
  proof (rule fr, rule ballI)
    fix x
    show "\<not> prefix (dst @ rel @ [x]) q"
      using not_prefix_child[OF that, of x] by simp
  qed
  have "placed um fs s' (dst @ rel) (Dir m es)"
    unfolding placed_def
  proof
    fix r
    show "look s' ((dst @ rel) @ r) =
            (case look (Dir m es) r of
               Some e \<Rightarrow> Some (copied um e (look fs ((dst @ rel) @ r)))
             | None \<Rightarrow> look fs ((dst @ rel) @ r))"
    proof (cases r)
      case Nil
      then show ?thesis using out[of "dst @ rel"] d1 by simp
    next
      case (Cons y ys)
      have below: "look s1 (dst @ rel @ y # ys) = look fs (dst @ rel @ y # ys)"
        by (rule kept) simp
      show ?thesis
      proof (cases "map_of es y")
        case None
        have "\<forall>x\<in>set (readDirNames es). \<not> prefix (dst @ rel @ [x]) (dst @ rel @ y # ys)"
          using None by (auto simp: readDirNames_set dest: map_of_eq_None_iff[THEN iffD1])
        from fr[OF this] below None Cons show ?thesis by simp
      next
        case (Some n)
        from ch[OF Some] have "look s' ((dst @ rel @ [y]) @ ys) =
            (case look n ys of
               Some e \<Rightarrow> Some (copied um e (look s1 ((dst @ rel @ [y]) @ ys)))
             | None \<Rightarrow> look s1 ((dst @ rel @ [y]) @ ys))"
          unfolding placed_def by blast
        with below Some Cons show ?thesis by (simp cong: option.case_cong)
      qed
    qed
  qed
  moreover have "frame fs s' (dst @ rel)"
    unfolding frame_def
  proof (intro allI impI)
    fix q
    assume a: "\<not> prefix (dst @ rel) q" and b: "look fs q \<noteq> None \<or> \<not> prefix q (dst @ rel)"
    from out[of q] a kept[OF b] show "look s' q = look fs q" by simp
  qed
  ultimately show ?case by simp
next
  case (3 fn p es fs)
  then show ?case by (simp add: placed_def)
next
  case (4 fn p es x xs fs)
  from 4(9) obtain md where dd: "look fs (dst @ rel) = Some (D md)" by blast
  from 4(4,5,6) obtain n where n: "map_of es x = Some n"
    by (cases "map_of es x") (auto simp: copyDirectory_fn_def)
  obtain s1 r1 where w: "walk fn (p @ [x]) n fs = (s1, r1)"
    by (cases "walk fn (p @ [x]) n fs")
  with 4(4) n have r1: "r1 = None" and wn: "walk_names fn p es xs s1 = (s', None)"
    by (auto split: option.splits)
  from 4(8) n have intx: "intact fs (src @ (rel @ [x])) n" by simp
  from 4(6) have px: "p @ [x] = src @ rel @ [x]" by simp
  from 4(2)[OF n _ 4(5) px intx] w r1
  have pl1: "placed um fs s1 (dst @ rel @ [x]) n" and fr1: "frame fs s1 (dst @ rel @ [x])"
    by auto
  have keep1: "look s1 q = look fs q" if "\<not> prefix (dst @ rel @ [x]) q" for q
  proof -
    have "look fs q \<noteq> None \<or> \<not> prefix q (dst @ rel @ [x])"
    proof (cases "prefix q (dst @ rel @ [x])")
      case True
      with that have "prefix q (dst @ rel)"
        using prefix_of_child[of q "dst @ rel" x] by simp
      with dd look_prefix_exists[OF dd this] show ?thesis by (cases "q = dst @ rel") auto
    next
      case False
      then show ?thesis by simp
    qed
    with fr1 that show ?thesis unfolding frame_def by blast
  qed
  from w r1 have pre: "(s1, None) = walk fn (p @ [x]) n fs" by simp
  have dxs: "distinct xs" and xn: "x \<notin> set xs" using 4(7) by auto
  have int1: "\<forall>y\<in>set xs. \<forall>k. map_of es y = Some k \<longrightarrow> intact s1 (src @ rel @ [y]) k"
  proof (intro ballI allI impI)
    fix y k assume y: "y \<in> set xs" and k: "map_of es y = Some k"
    with 4(8) have i0: "intact fs (src @ rel @ [y]) k" by simp
    show "intact s1 (src @ rel @ [y]) k"
      unfolding intact_def
    proof (intro allI impI)
      fix r e assume "look k r = Some e"
      with i0 have "look fs ((src @ rel @ [y]) @ r) = Some e" unfolding intact_def by blast
      moreover have "\<not> prefix (dst @ rel @ [x]) ((src @ rel @ [y]) @ r)"
        using not_nested_append[OF nn, of "rel @ [x]" "rel @ [y] @ r"] by simp
      ultimately show "look s1 ((src @ rel @ [y]) @ r) = Some e" by (simp add: keep1)
    qed
  qed
  have dd1: "\<exists>m. look s1 (dst @ rel) = Some (D m)"
    using keep1[of "dst @ rel"] dd by simp
  from 4(3)[OF n pre refl wn 4(5) 4(6) dxs int1 dd1]
  have pl2: "\<And>y k. y \<in> set xs \<Longrightarrow> map_of es y = Some k \<Longrightarrow> placed um s1 s' (dst @ rel @ [y]) k"
    and fr2: "\<And>q. (\<forall>y\<in>set xs. \<not> prefix (dst @ rel @ [y]) q) \<Longrightarrow> look s' q = look s1 q"
    by auto
  have A: "placed um fs s' (dst @ rel @ [y]) k"
    if y: "y \<in> set (x # xs)" and k: "map_of es y = Some k" for y k
  proof (cases "y = x")
    case True
    with k n have kn: "k = n" by simp
    have "look s' ((dst @ rel @ [x]) @ r) = look s1 ((dst @ rel @ [x]) @ r)" for r
      by (rule fr2) (use xn in auto)
    with pl1 show ?thesis unfolding placed_def True kn by (simp cong: option.case_cong)
  next
    case False
    with y have yx: "y \<in> set xs" by simp
    have "look s1 ((dst @ rel @ [y]) @ r) = look fs ((dst @ rel @ [y]) @ r)" for r
      by (rule keep1) (use False in auto)
    with pl2[OF yx k] show ?thesis unfolding placed_def by (simp cong: option.case_cong)
  qed
  have B: "look s' q = look fs q" if "\<forall>y\<in>set (x # xs). \<not> prefix (dst @ rel @ [y]) q" for q
    using that fr2[of q] keep1[of q] by simp
  from A B show ?case by blast
qed


lemma intact_at:
  assumes "Stat fs src = Inr t"
  shows "look fs (src @ r) = look t r"
  using assms by (simp add: look_append)

lemma copyDirectory_ok:
  assumes nn: "\<not> prefix src dst" "\<not> prefix dst src"
    and t: "Stat fs src = Inr t"
    and run: "copyDirectory um src dst fs = (fs', None)"
  shows "placed um fs fs' dst t \<and> frame fs fs' dst"
proof -
  from run t have w: "walk (copyDirectory_fn um src dst) src t fs = (fs', None)"
    by (simp add: copyDirectory_def Walk_def)
  have "intact fs (src @ []) t"
    using intact_at[OF t] by (simp add: intact_def)
  from walk_copy_ok(1)[OF nn w refl _ this] show ?thesis by simp
qed

lemma copyDirectory_source_exists:
  assumes "copyDirectory um src dst fs = (fs', None)"
  obtains t where "Stat fs src = Inr t"
  using assms by (cases "Stat fs src") (auto simp: copyDirectory_def Walk_def copyDirectory_fn_def)

lemma placed_entry:
  "placed um s s' p n \<Longrightarrow> look n r = Some e \<Longrightarrow> look s' (p @ r) = Some (copied um e (look s (p @ r)))"
  by (simp add: placed_def)

lemma look_D_iff: "look fs p = Some (D m) \<longleftrightarrow> (\<exists>es. Stat fs p = Inr (Dir m es))"
proof (cases "Stat fs p")
  case (Inl e)
  then show ?thesis by (simp add: look_def)
next
  case (Inr n)
  then show ?thesis by (cases n) (auto simp: look_def)
qed







lemmas eval_defs =
  install_def main_def main_positional_def toPath_def Let_def
  installKernelModules_def installFirmware_def installConfigFiles_def
  installKernelModules_positional_def installFirmware_positional_def
  installConfigFiles_positional_def
  Installer_Install_def Installer_installKernelModules_def Installer_installFirmware_def
  Installer_installConfigFiles_def Installer_configureBootParams_def NewInstaller_def
  copyDirectory_def Walk_def copyDirectory_fn_def filepath_Rel_def filepath_Dir_def
  copyFile_def readDirNames_def MkdirAll.simps

lemma no_file_on_Cons:
  "no_file_on (Dir m es) (x # xs) \<longleftrightarrow>
     (case map_of es x of None \<Rightarrow> True | Some n \<Rightarrow> no_file_on n xs)"
proof -
  have "no_file_on (Dir m es) (x # xs) \<longleftrightarrow>
          (\<forall>q m' c. prefix q xs \<longrightarrow> look (Dir m es) (x # q) \<noteq> Some (F m' c))"
    unfolding no_file_on_def
    by (auto simp: prefix_Cons)
  then show ?thesis
    by (auto simp: no_file_on_def split: option.splits)
qed

lemma IsNotExist_iff:
  "IsNotExist (Stat fs q) \<longleftrightarrow> look fs q = None \<and> no_file_on fs q"
proof (induction fs q rule: Stat.induct)
  case (1 n)
  then show ?case by simp
next
  case (2 m c x xs)
  have "\<not> no_file_on (File m c) (x # xs)"
    unfolding no_file_on_def by (auto intro!: exI[of _ "[]"])
  then show ?case by simp
next
  case (3 m es x xs)
  then show ?case by (auto simp: no_file_on_Cons split: option.splits)
qed

lemma IsNotExist_after_copy:
  assumes nn: "\<not> prefix src dst" "\<not> prefix dst src"
    and run: "copyDirectory um src dst fs = (fs', None)"
    and q: "\<not> prefix dst q" "\<not> prefix q dst"
  shows "IsNotExist (Stat fs' q) \<longleftrightarrow> IsNotExist (Stat fs q)"
proof -
  from run obtain t where t: "Stat fs src = Inr t" by (rule copyDirectory_source_exists)
  from copyDirectory_ok[OF nn t run]
  have pl: "placed um fs fs' dst t" and fr: "frame fs fs' dst" by auto
  from placed_entry[OF pl, of "[]" "entry_of t"]
  obtain e where e: "look fs' dst = Some e" by auto
  have same: "look fs' q = look fs q"
    using fr q unfolding frame_def by blast
  have pre: "(\<exists>m c. look fs' p = Some (F m c)) \<longleftrightarrow> (\<exists>m c. look fs p = Some (F m c))"
    if p: "prefix p q" for p
  proof -
    from p q(1) have npd: "\<not> prefix dst p" using prefix_order.trans by blast
    show ?thesis
    proof (cases "look fs p \<noteq> None \<or> \<not> prefix p dst")
      case True
      with fr npd have "look fs' p = look fs p" unfolding frame_def by blast
      then show ?thesis by simp
    next
      case False
      then have n: "look fs p = None" and pd: "prefix p dst" by auto
      from npd have "p \<noteq> dst" by auto
      from look_prefix_exists[OF e pd this] n show ?thesis by auto
    qed
  qed
  have "no_file_on fs' q \<longleftrightarrow> no_file_on fs q"
    unfolding no_file_on_def using pre by blast
  with same show ?thesis by (simp add: IsNotExist_iff)
qed


lemma stage_keeps_absent:
  assumes nn: "\<not> prefix ov rf" "\<not> prefix rf ov"
  shows "installKernelModules_positional um ov rf fs = (fs1, None) \<Longrightarrow>
           IsNotExist (Stat fs1 (ov @ r)) \<longleftrightarrow> IsNotExist (Stat fs (ov @ r))"
    and "installFirmware_positional um ov rf fs = (fs1, None) \<Longrightarrow>
           IsNotExist (Stat fs1 (ov @ r)) \<longleftrightarrow> IsNotExist (Stat fs (ov @ r))"
    and "installConfigFiles_positional um ov rf fs = (fs1, None) \<Longrightarrow>
           IsNotExist (Stat fs1 (ov @ r)) \<longleftrightarrow> IsNotExist (Stat fs (ov @ r))"
proof -
  have a: "\<not> prefix (ov @ x) (rf @ y)" for x y
    using not_nested_append[OF nn(2) nn(1)] .
  have b: "\<not> prefix (rf @ x) (ov @ y)" for x y
    using not_nested_append[OF nn] .
  have keep: "IsNotExist (Stat fs1 (ov @ r)) \<longleftrightarrow> IsNotExist (Stat fs (ov @ r))"
    if "copyDirectory um (ov @ x) (rf @ y) fs = (fs1, None)" for x y
    using IsNotExist_after_copy[OF a b that b a] .
  show "installKernelModules_positional um ov rf fs = (fs1, None) \<Longrightarrow>
           IsNotExist (Stat fs1 (ov @ r)) \<longleftrightarrow> IsNotExist (Stat fs (ov @ r))"
    using keep[of "[''install'', ''kernel-modules'']" "[''lib'', ''modules'']"]
    by (auto simp: installKernelModules_positional_def Let_def split: if_splits)
  show "installFirmware_positional um ov rf fs = (fs1, None) \<Longrightarrow>
           IsNotExist (Stat fs1 (ov @ r)) \<longleftrightarrow> IsNotExist (Stat fs (ov @ r))"
    using keep[of "[''install'', ''firmware'']" "[''lib'', ''firmware'']"]
    by (auto simp: installFirmware_positional_def Let_def split: if_splits)
  show "installConfigFiles_positional um ov rf fs = (fs1, None) \<Longrightarrow>
           IsNotExist (Stat fs1 (ov @ r)) \<longleftrightarrow> IsNotExist (Stat fs (ov @ r))"
    using keep[of "[''files'']" "[]"]
    by (auto simp: installConfigFiles_positional_def Let_def split: if_splits)
qed

lemma stage_same:
  "IsNotExist (Stat fs (ov @ [''artifacts'', ''install'', ''kernel-modules''])) \<Longrightarrow>
     installKernelModules um ov rf fs = installKernelModules_positional um ov rf fs"
  "IsNotExist (Stat fs (ov @ [''artifacts'', ''install'', ''firmware''])) \<Longrightarrow>
     installFirmware um ov rf fs = installFirmware_positional um ov rf fs"
  "IsNotExist (Stat fs (ov @ [''artifacts'', ''files''])) \<Longrightarrow>
     installConfigFiles um ov rf fs = installConfigFiles_positional um ov rf fs"
  by (simp_all add: installKernelModules_def installKernelModules_positional_def
        installFirmware_def installFirmware_positional_def
        installConfigFiles_def installConfigFiles_positional_def)

lemma Installer_Install_writes_nothing: "fst (Installer_Install i opts fs) = fs"
  by (simp add: Installer_Install_def Installer_installKernelModules_def
        Installer_installFirmware_def Installer_installConfigFiles_def
        Installer_configureBootParams_def Let_def)

lemma prefix_of_below:
  "prefix q (d @ r) \<Longrightarrow> prefix q d \<or> prefix d q"
  by (auto simp: prefix_append)


lemma agree_look:
  "agree_at d s1 s2 \<Longrightarrow> prefix q (d @ r) \<Longrightarrow> look s1 q = look s2 q"
  using prefix_of_below by (auto simp: agree_at_def)




lemma walk_child_keeps:
  assumes nn: "\<not> prefix src dst" "\<not> prefix dst src"
    and w: "walk (copyDirectory_fn um src dst) (src @ rel @ [x]) n s = (s', None)"
    and int: "intact s (src @ rel @ [x]) n"
    and dd: "look s (dst @ rel) = Some (D md)"
    and q: "\<not> prefix (dst @ rel @ [x]) q"
  shows "look s' q = look s q"
proof -
  from walk_copy_ok(1)[OF nn w refl, of "rel @ [x]"] int
  have fr: "frame s s' (dst @ rel @ [x])" by simp
  have "look s q \<noteq> None \<or> \<not> prefix q (dst @ rel @ [x])"
  proof (cases "prefix q (dst @ rel @ [x])")
    case True
    with q have "prefix q (dst @ rel)"
      using prefix_of_child[of q "dst @ rel" x] by simp
    with dd look_prefix_exists[OF dd this] show ?thesis by (cases "q = dst @ rel") auto
  next
    case False
    then show ?thesis by simp
  qed
  with fr q show ?thesis unfolding frame_def by blast
qed






lemma Stat_exists_not_absent: "Stat fs p = Inr n \<Longrightarrow> \<not> IsNotExist (Stat fs p)"
  by simp

lemma walk_live_mono_step:
  "walk_live k fn p info fs = Some r \<Longrightarrow> walk_live (Suc k) fn p info fs = Some r"
  "walk_live_names k fn p xs fs = Some r \<Longrightarrow> walk_live_names (Suc k) fn p xs fs = Some r"
proof (induction k fn p info fs and k fn p xs fs arbitrary: r and r rule: walk_live_walk_live_names.induct)
  case (1 fn p info fs)
  then show ?case by simp
next
  case (2 k fn p info fs)
  show ?case
  proof (cases "IsDir info")
    case False
    with 2(2) show ?thesis by simp
  next
    case True
    show ?thesis
    proof (cases "Stat fs p")
      case (Inl e)
      with True 2(2) show ?thesis by simp
    next
      case (Inr d)
      show ?thesis
      proof (cases d)
        case (File m c)
        with True Inr 2(2) show ?thesis by simp
      next
        case (Dir m es)
        obtain fs1 r1 where f: "fn p (Inr info) fs = (fs1, r1)" by (cases "fn p (Inr info) fs")
        show ?thesis
        proof (cases r1)
          case (Some e)
          with True Inr Dir f 2(2) have "r = (fs1, Some e)" by simp
          with True Inr Dir f Some show ?thesis by simp
        next
          case None
          with True Inr Dir f 2(2) have "walk_live_names k fn p (readDirNames es) fs1 = Some r"
            by simp
          from 2(1)[OF _ Inr Dir f[symmetric] None this] True
          have "walk_live_names (Suc k) fn p (readDirNames es) fs1 = Some r" by simp
          with True Inr Dir f None show ?thesis by simp
        qed
      qed
    qed
  qed
next
  case (3 k fn p fs)
  then show ?case by simp
next
  case (4 k fn p x xs fs)
  show ?case
  proof (cases "Stat fs (p @ [x])")
    case (Inl e)
    obtain fs1 r1 where f: "fn (p @ [x]) (Inl (PathError e)) fs = (fs1, r1)"
      by (cases "fn (p @ [x]) (Inl (PathError e)) fs")
    show ?thesis
    proof (cases r1)
      case (Some e')
      with Inl f 4(4) have "r = (fs1, Some e')" by simp
      with Inl f Some show ?thesis by simp
    next
      case None
      with Inl f 4(4) have "walk_live_names k fn p xs fs1 = Some r" by simp
      from 4(1)[OF Inl f[symmetric] None this] Inl f None show ?thesis by simp
    qed
  next
    case (Inr fileInfo)
    show ?thesis
    proof (cases "walk_live k fn (p @ [x]) fileInfo fs")
      case None
      with Inr 4(4) show ?thesis by simp
    next
      case (Some res)
      obtain fs1 r1 where res: "res = (fs1, r1)" by (cases res)
      from 4(2)[OF Inr Some] have up: "walk_live (Suc k) fn (p @ [x]) fileInfo fs = Some res" .
      show ?thesis
      proof (cases r1)
        case (Some e)
        with Inr \<open>walk_live k fn (p @ [x]) fileInfo fs = Some res\<close> res 4(4)
        have "r = (fs1, Some e)" by simp
        with Inr up res Some show ?thesis by simp
      next
        case None
        with Inr \<open>walk_live k fn (p @ [x]) fileInfo fs = Some res\<close> res 4(4)
        have "walk_live_names k fn p xs fs1 = Some r" by simp
        from 4(3)[OF Inr \<open>walk_live k fn (p @ [x]) fileInfo fs = Some res\<close> res[symmetric] None this]
        have "walk_live_names (Suc k) fn p xs fs1 = Some r" .
        with Inr up res None show ?thesis by simp
      qed
    qed
  qed
qed


lemma walk_live_mono:
  "k \<le> k' \<Longrightarrow> walk_live k fn p info fs = Some r \<Longrightarrow> walk_live k' fn p info fs = Some r"
  "k \<le> k' \<Longrightarrow> walk_live_names k fn p xs fs = Some r \<Longrightarrow> walk_live_names k' fn p xs fs = Some r"
proof -
  show "k \<le> k' \<Longrightarrow> walk_live k fn p info fs = Some r \<Longrightarrow> walk_live k' fn p info fs = Some r"
    by (induction k' rule: dec_induct) (blast intro: walk_live_mono_step(1))+
  show "k \<le> k' \<Longrightarrow> walk_live_names k fn p xs fs = Some r \<Longrightarrow> walk_live_names k' fn p xs fs = Some r"
    by (induction k' rule: dec_induct) (blast intro: walk_live_mono_step(2))+
qed

lemma fn_info_only:
  "IsDir a = IsDir b \<Longrightarrow> Mode a = Mode b \<Longrightarrow>
     copyDirectory_fn um src dst p (Inr a) s = copyDirectory_fn um src dst p (Inr b) s"
  unfolding copyDirectory_fn_def by (simp add: Let_def cong: if_cong split: sum.splits)

lemma entry_of_eq: "entry_of a = entry_of b \<Longrightarrow> IsDir a = IsDir b \<and> Mode a = Mode b"
  by (cases a; cases b) auto

lemma readDirNames_cong:
  "fst ` set es = fst ` set es' \<Longrightarrow> readDirNames es = readDirNames es'"
  by (metis readDirNames_def list.set_map sorted_list_of_set_sort_remdups)

lemma look_Dir_single:
  "look (Dir m es) [x] = (case map_of es x of None \<Rightarrow> None | Some n \<Rightarrow> Some (entry_of n))"
  by (simp split: option.splits)

lemma names_of_same_view:
  assumes sv: "same_view (Dir m es) s p" and st: "Stat s p = Inr (Dir m' es')"
  shows "readDirNames es' = readDirNames es"
proof (rule readDirNames_cong)
  have "map_of es' x = None \<longleftrightarrow> map_of es x = None" for x
  proof -
    have "look s (p @ [x]) = look (Dir m es) [x]" using sv by (simp add: same_view_def)
    moreover have "look s (p @ [x]) = look (Dir m' es') [x]" using st by (simp add: look_append)
    ultimately have "look (Dir m' es') [x] = look (Dir m es) [x]" by simp
    then show ?thesis unfolding look_Dir_single by (auto split: option.splits)
  qed
  then show "fst ` set es' = fst ` set es"
    by (metis map_of_eq_None_iff subsetI subset_antisym)
qed

lemma same_view_child:
  "same_view (Dir m es) s p \<Longrightarrow> map_of es x = Some n \<Longrightarrow> same_view n s (p @ [x])"
  unfolding same_view_def
proof
  fix r
  assume a: "\<forall>r. look s (p @ r) = look (Dir m es) r" and n: "map_of es x = Some n"
  from a have "look s (p @ x # r) = look (Dir m es) (x # r)" by blast
  with n show "look s ((p @ [x]) @ r) = look n r" by simp
qed

lemma same_view_intact: "same_view n s p \<Longrightarrow> intact s p n"
  by (simp add: same_view_def intact_def)

lemma walk_live_refines:
  assumes nn: "\<not> prefix src dst" "\<not> prefix dst src"
  shows "fn = copyDirectory_fn um src dst \<Longrightarrow> pth = src @ rel \<Longrightarrow>
           same_view n s (src @ rel) \<Longrightarrow> IsDir info = IsDir n \<Longrightarrow> Mode info = Mode n \<Longrightarrow>
           \<exists>k. walk_live k fn pth info s = Some (walk fn pth n s)"
    and "fn = copyDirectory_fn um src dst \<Longrightarrow> pth = src @ rel \<Longrightarrow> distinct xs \<Longrightarrow>
           (\<forall>x\<in>set xs. \<exists>n. map_of es x = Some n \<and> same_view n s (src @ rel @ [x])) \<Longrightarrow>
           (\<exists>md. look s (dst @ rel) = Some (D md)) \<Longrightarrow>
           \<exists>k. walk_live_names k fn pth xs s = Some (walk_names fn pth es xs s)"
proof (induction fn pth n s and fn pth es xs s arbitrary: rel info and rel
        rule: walk_walk_names.induct)
  case (1 fn p m c fs)
  from 1(4,5) have "fn p (Inr info) fs = fn p (Inr (File m c)) fs"
    unfolding 1(1) by (intro fn_info_only) simp_all
  with 1(4) have "walk_live (Suc 0) fn p info fs = Some (walk fn p (File m c) fs)" by simp
  then show ?case by blast
next
  case (2 fn p m es fs)
  from 2(5,6) have fi: "fn p (Inr info) fs = fn p (Inr (Dir m es)) fs"
    unfolding 2(2) by (intro fn_info_only) simp_all
  from 2(5) have dir: "IsDir info" by simp
  have "look fs (src @ rel) = Some (D m)"
    using 2(4)[unfolded same_view_def, rule_format, of "[]"] by simp
  then obtain es' where st: "Stat fs p = Inr (Dir m es')"
    using 2(3) by (auto simp: look_D_iff)
  have names: "readDirNames es' = readDirNames es"
    using names_of_same_view[OF 2(4)] st 2(3) by simp
  obtain s1 r1 where f: "fn p (Inr (Dir m es)) fs = (s1, r1)"
    by (cases "fn p (Inr (Dir m es)) fs")
  show ?case
  proof (cases r1)
    case (Some e)
    with f fi st dir have "walk_live (Suc 0) fn p info fs = Some (walk fn p (Dir m es) fs)"
      by simp
    then show ?thesis by blast
  next
    case None
    from f None 2(2,3)
    have x1: "copyDirectory_fn um src dst (src @ rel) (Inr (Dir m es)) fs = (s1, None)" by simp
    from fn_dir[OF x1]
    have nf: "no_file_on fs (dst @ rel)"
      and lm: "\<And>q. look s1 q = (if prefix q (dst @ rel) \<and> look fs q = None
                               then Some (D (m AND NOT um)) else look fs q)"
      by auto
    have srcside: "look s1 (src @ a) = look fs (src @ a)" for a
      using not_nested_append[OF nn(2) nn(1), of a rel] by (simp add: lm)
    have dd: "\<exists>md. look s1 (dst @ rel) = Some (D md)"
    proof (cases "look fs (dst @ rel)")
      case None
      then show ?thesis by (simp add: lm)
    next
      case (Some e)
      with nf show ?thesis by (cases e) (auto simp: no_file_on_def lm)
    qed
    have ch: "\<forall>x\<in>set (readDirNames es). \<exists>n. map_of es x = Some n \<and>
                same_view n s1 (src @ rel @ [x])"
    proof
      fix x assume "x \<in> set (readDirNames es)"
      then obtain n where n: "map_of es x = Some n"
        by (auto simp: readDirNames_set dest!: weak_map_of_SomeI)
      from same_view_child[OF 2(4) n] have "same_view n fs ((src @ rel) @ [x])" .
      then have "same_view n s1 (src @ rel @ [x])"
        unfolding same_view_def using srcside[of "rel @ [x] @ r" for r] by simp
      with n show "\<exists>n. map_of es x = Some n \<and> same_view n s1 (src @ rel @ [x])" by blast
    qed
    from f None have pre: "(s1, None) = fn p (Inr (Dir m es)) fs" by simp
    from 2(1)[OF pre refl 2(2,3) readDirNames_distinct ch dd]
    obtain k where "walk_live_names k fn p (readDirNames es) s1
                      = Some (walk_names fn p es (readDirNames es) s1)" by blast
    with f fi st dir None names
    have "walk_live (Suc k) fn p info fs = Some (walk fn p (Dir m es) fs)" by simp
    then show ?thesis by blast
  qed
next
  case (3 fn p es fs)
  have "walk_live_names 0 fn p [] fs = Some (walk_names fn p es [] fs)" by simp
  then show ?case by blast
next
  case (4 fn p es x xs fs)
  from 4(7) obtain n where n: "map_of es x = Some n"
    and sv: "same_view n fs (src @ (rel @ [x]))" by auto
  from 4(8) obtain md where dd: "look fs (dst @ rel) = Some (D md)" by blast
  have "look fs (p @ [x]) = Some (entry_of n)"
    using sv[unfolded same_view_def, rule_format, of "[]"] 4(5) by simp
  then obtain info' where st: "Stat fs (p @ [x]) = Inr info'" and eo: "entry_of info' = entry_of n"
    by (cases "Stat fs (p @ [x])") (auto simp: look_def)
  from entry_of_eq[OF eo] have isd: "IsDir info' = IsDir n" and md: "Mode info' = Mode n" by auto
  from 4(5) have px: "p @ [x] = src @ rel @ [x]" by simp
  from 4(2)[OF n 4(4) px sv isd md]
  obtain k1 where l1: "walk_live k1 fn (p @ [x]) info' fs = Some (walk fn (p @ [x]) n fs)"
    by blast
  obtain s1 r1 where w: "walk fn (p @ [x]) n fs = (s1, r1)" by (cases "walk fn (p @ [x]) n fs")
  show ?case
  proof (cases r1)
    case (Some e)
    with st l1 w n have "walk_live_names k1 fn p (x # xs) fs = Some (walk_names fn p es (x # xs) fs)"
      by simp
    then show ?thesis by blast
  next
    case None
    from w None 4(4,5)
    have wn: "walk (copyDirectory_fn um src dst) (src @ rel @ [x]) n fs = (s1, None)" by simp
    have keep: "look s1 q = look fs q" if "\<not> prefix (dst @ rel @ [x]) q" for q
      using walk_child_keeps[OF nn wn _ dd that] same_view_intact[OF sv] by simp
    have ch: "\<forall>y\<in>set xs. \<exists>k. map_of es y = Some k \<and> same_view k s1 (src @ rel @ [y])"
    proof
      fix y assume "y \<in> set xs"
      with 4(7) obtain k where k: "map_of es y = Some k"
        and svy: "same_view k fs (src @ rel @ [y])" by auto
      have "look s1 ((src @ rel @ [y]) @ r) = look fs ((src @ rel @ [y]) @ r)" for r
        using keep[of "(src @ rel @ [y]) @ r"]
              not_nested_append[OF nn, of "rel @ [x]" "rel @ [y] @ r"] by simp
      with svy have "same_view k s1 (src @ rel @ [y])" by (simp add: same_view_def)
      with k show "\<exists>k. map_of es y = Some k \<and> same_view k s1 (src @ rel @ [y])" by blast
    qed
    have dd1: "\<exists>md. look s1 (dst @ rel) = Some (D md)"
      using keep[of "dst @ rel"] dd by simp
    from 4(6) have dxs: "distinct xs" by simp
    from w None have pre: "(s1, None) = walk fn (p @ [x]) n fs" by simp
    from 4(3)[OF n pre refl 4(4,5) dxs ch dd1]
    obtain k2 where l2: "walk_live_names k2 fn p xs s1 = Some (walk_names fn p es xs s1)"
      by blast
    from walk_live_mono(1)[OF max.cobounded1 l1, of k2] w None
    have a: "walk_live (max k1 k2) fn (p @ [x]) info' fs = Some (s1, None)" by simp
    from walk_live_mono(2)[OF max.cobounded2 l2, of k1]
    have b: "walk_live_names (max k1 k2) fn p xs s1 = Some (walk_names fn p es xs s1)" .
    from st a b n w None
    have "walk_live_names (max k1 k2) fn p (x # xs) fs = Some (walk_names fn p es (x # xs) fs)"
      by simp
    then show ?thesis by blast
  qed
qed

theorem Walk_live_is_copyDirectory:
  assumes nn: "\<not> prefix src dst" "\<not> prefix dst src"
  shows "\<exists>k. \<forall>k'\<ge>k. Walk_live k' src (copyDirectory_fn um src dst) fs
                       = Some (copyDirectory um src dst fs)"
proof (cases "Stat fs src")
  case (Inl e)
  then show ?thesis by (simp add: Walk_live_def copyDirectory_def Walk_def)
next
  case (Inr t)
  have "same_view t fs (src @ [])" using intact_at[OF Inr] by (simp add: same_view_def)
  from walk_live_refines(1)[OF nn refl _ this refl refl]
  obtain k where k: "walk_live k (copyDirectory_fn um src dst) src t fs
                       = Some (walk (copyDirectory_fn um src dst) src t fs)" by auto
  have "\<forall>k'\<ge>k. Walk_live k' src (copyDirectory_fn um src dst) fs
                       = Some (copyDirectory um src dst fs)"
    using walk_live_mono(1)[OF _ k] Inr by (simp add: Walk_live_def copyDirectory_def Walk_def)
  then show ?thesis by blast
qed






lemma same_kind_refl [simp]: "same_kind e e"
  by (cases e) auto



lemma kept_but_refl [simp]: "kept_but d s s"
  by (simp add: kept_but_def)



lemma keeps_refl [simp]: "keeps s s"
  by (auto simp: keeps_def)


lemma kept_outside_refl [simp]: "kept_outside d s s"
  by (simp add: kept_outside_def)














section \<open>The installer's contract\<close>

text \<open>
  Claim C9. When \<open>copyFile\<close> writes to a path where a regular file already is, the file gets
  the source's content as \<open>io.Copy\<close> reads it (nothing, if source and destination are the
  same file) and keeps the permission bits it had. The mode handed to \<open>copyFile\<close> (less the
  umask) is applied only when the destination is new. So a copy over a populated target
  can leave modes that differ from the source's.
\<close>

theorem C9_copyFile_existing_destination:
  assumes "Stat fs src = Inr (File m c)"
  shows "(Stat fs dst = Inr (File m0 c0) \<longrightarrow>
            (\<exists>fs'. copyFile um src dst mode fs = (fs', None) \<and>
                   Stat fs' dst = Inr (File m0 (if src = dst then [] else c)))) \<and>
         (look fs dst = None \<and> can_create fs dst \<longrightarrow>
            (\<exists>fs'. copyFile um src dst mode fs = (fs', None) \<and>
                   Stat fs' dst = Inr (File (mode AND NOT um) c)))"
proof -
  from assms have src: "look fs src = Some (F m c)" by (simp add: look_F_iff)
  obtain fs' r where run: "copyFile um src dst mode fs = (fs', r)"
    by (cases "copyFile um src dst mode fs")
  note spec = copyFile_spec[OF src run]
  have a: "\<exists>fs'. copyFile um src dst mode fs = (fs', None) \<and>
                   Stat fs' dst = Inr (File m0 (if src = dst then [] else c))"
    if ex: "Stat fs dst = Inr (File m0 c0)"
  proof -
    from ex have l: "look fs dst = Some (F m0 c0)" by (simp add: look_F_iff)
    then have "can_create fs dst" by (simp add: can_create_def)
    with spec have "r = None" by simp
    with spec l have "look fs' dst = Some (F m0 (if src = dst then [] else c))" by simp
    then show ?thesis using run \<open>r = None\<close> by (auto simp: look_F_iff)
  qed
  have b: "\<exists>fs'. copyFile um src dst mode fs = (fs', None) \<and>
                   Stat fs' dst = Inr (File (mode AND NOT um) c)"
    if n: "look fs dst = None" and cc: "can_create fs dst"
  proof -
    from spec cc have "r = None" by simp
    moreover from n src have "src \<noteq> dst" by auto
    ultimately have "look fs' dst = Some (F (mode AND NOT um) c)" using spec n by simp
    then show ?thesis using run \<open>r = None\<close> by (auto simp: look_F_iff)
  qed
  from a b show ?thesis by blast
qed

theorem C9_copyFile_existing_destination_witness:
  "Stat (Dir 493 [(''s'', File 420 ''new''), (''d'', File 384 ''old'')]) [''s'']
     = Inr (File 420 ''new'') \<and>
   Stat (Dir 493 [(''s'', File 420 ''new''), (''d'', File 384 ''old'')]) [''d'']
     = Inr (File 384 ''old'') \<and>
   (\<exists>fs'. copyFile 0 [''s''] [''d''] 420
             (Dir 493 [(''s'', File 420 ''new''), (''d'', File 384 ''old'')]) = (fs', None) \<and>
          Stat fs' [''d''] = Inr (File 384 ''new''))"
  using C9_copyFile_existing_destination
          [of "Dir 493 [(''s'', File 420 ''new''), (''d'', File 384 ''old'')]" "[''s'']"
              420 "''new''" "[''d'']" 384 "''old''" 0 420]
  by simp

text \<open>
  Claim C7. Nothing is written before the options are resolved: when the decoder rejects
  standard input, \<open>install\<close> fails and the filesystem is the one it was given; so it is when
  the positional program gets fewer than two arguments after its name.
\<close>

theorem C7_no_write_before_options:
  "(2 \<le> length args \<and> args ! 1 = ''install'' \<longrightarrow>
      main um args (Inl err) executable encodeErr fs
        = (fs, 1, [(''Error'', Some (Errorf ''failed to decode install options'' err))])) \<and>
   (length args < 3 \<longrightarrow>
      main_positional um args fs = (fs, 1, [(''Usage: <overlay-path> <rootfs-path>'', None)]))"
  by (simp add: main_def install_def main_positional_def)

theorem C7_no_write_before_options_witness:
  "(2 \<le> length [''installer'', ''install''] \<and> [''installer'', ''install''] ! 1 = ''install'') \<and>
   main 18 [''installer'', ''install''] (Inl (YamlError ''mapping values are not allowed''))
        (Inr ''/overlay/installers/installer'') None (Dir 493 [(''rootfs'', Dir 493 [])])
     = (Dir 493 [(''rootfs'', Dir 493 [])], 1,
        [(''Error'', Some (Errorf ''failed to decode install options''
                            (YamlError ''mapping values are not allowed'')))]) \<and>
   length [''installer'', ''/overlay''] < 3 \<and>
   main_positional 18 [''installer'', ''/overlay''] (Dir 493 [(''rootfs'', Dir 493 [])])
     = (Dir 493 [(''rootfs'', Dir 493 [])], 1, [(''Usage: <overlay-path> <rootfs-path>'', None)])"
  using C7_no_write_before_options
          [of "[''installer'', ''install'']" 18 "YamlError ''mapping values are not allowed''"
              "Inr ''/overlay/installers/installer''" None "Dir 493 [(''rootfs'', Dir 493 [])]"]
        C7_no_write_before_options
          [of "[''installer'', ''/overlay'']" 18 "YamlError ''x''" "Inr ''y''" None
              "Dir 493 [(''rootfs'', Dir 493 [])]"]
  by simp

text \<open>
  Claim C10. \<open>installDisk\<close> and \<open>extraOptions\<close> have no effect: changing them in the decoded
  options changes neither the filesystem \<open>install\<close> leaves nor its error, and so neither
  what the process leaves.
\<close>

theorem C10_install_ignores_disk_and_extra_options:
  "install um (Inr (options\<lparr>InstallDisk := disk, ExtraOptions := extra\<rparr>)) executable arg0 fs
     = install um (Inr options) executable arg0 fs \<and>
   main um args (Inr (options\<lparr>InstallDisk := disk, ExtraOptions := extra\<rparr>)) executable encodeErr fs
     = main um args (Inr options) executable encodeErr fs"
proof -
  have same: "install um (Inr (options\<lparr>InstallDisk := disk, ExtraOptions := extra\<rparr>)) executable a fs
     = install um (Inr options) executable a fs" for a
    by (simp add: install_def)
  show ?thesis unfolding main_def same by simp
qed

text \<open>
  Claim C5, as the code has it. Source and destination not nested in one another, and
  \<open>copyDirectory\<close> succeeding on the tree \<open>t\<close> found at the source: every regular file of
  \<open>t\<close> is at the same relative path under the destination with the source's content, and
  every directory of \<open>t\<close> (empty or not, the root included) is a directory there. The
  permission bits are the source's less the umask where the copy made the entry, and the
  ones the entry already had where it was there before.
\<close>

theorem C5_copyDirectory_replicates:
  assumes "\<not> prefix src dst" and "\<not> prefix dst src"
    and "Stat fs src = Inr t"
    and "copyDirectory um src dst fs = (fs', None)"
  shows "(look t r = Some (F m c) \<longrightarrow>
            look fs' (dst @ r) = Some (F (kept_mode (look fs (dst @ r)) (m AND NOT um)) c)) \<and>
         (look t r = Some (D m) \<longrightarrow>
            look fs' (dst @ r) = Some (D (kept_dir_mode (look fs (dst @ r)) (m AND NOT um))))"
  using copyDirectory_ok[OF assms] by (auto dest: placed_entry)

theorem C5_copyDirectory_replicates_witness:
  "\<not> prefix [''src''] [''dst''] \<and> \<not> prefix [''dst''] [''src''] \<and>
   Stat (Dir 493 [(''src'', Dir 493 [(''a'', File 420 ''x''), (''e'', Dir 448 [])])]) [''src'']
     = Inr (Dir 493 [(''a'', File 420 ''x''), (''e'', Dir 448 [])]) \<and>
   copyDirectory 18 [''src''] [''dst'']
     (Dir 493 [(''src'', Dir 493 [(''a'', File 420 ''x''), (''e'', Dir 448 [])])])
     = (Dir 493 [(''src'', Dir 493 [(''a'', File 420 ''x''), (''e'', Dir 448 [])]),
                 (''dst'', Dir 493 [(''a'', File 420 ''x''), (''e'', Dir 448 [])])], None) \<and>
   look (Dir 493 [(''src'', Dir 493 [(''a'', File 420 ''x''), (''e'', Dir 448 [])]),
                  (''dst'', Dir 493 [(''a'', File 420 ''x''), (''e'', Dir 448 [])])])
        ([''dst''] @ [''a'']) = Some (F 420 ''x'')"
  using C5_copyDirectory_replicates
          [where src = "[''src'']" and dst = "[''dst'']" and um = 18 and r = "[''a'']"
             and m = 420 and c = "''x''"
             and fs = "Dir 493 [(''src'', Dir 493 [(''a'', File 420 ''x''), (''e'', Dir 448 [])])]"
             and t = "Dir 493 [(''a'', File 420 ''x''), (''e'', Dir 448 [])]"
             and fs' = "Dir 493 [(''src'', Dir 493 [(''a'', File 420 ''x''), (''e'', Dir 448 [])]),
                 (''dst'', Dir 493 [(''a'', File 420 ''x''), (''e'', Dir 448 [])])]"]
  by (simp add: copyDirectory_def Walk_def copyDirectory_fn_def filepath_Rel_def filepath_Dir_def
        copyFile_def readDirNames_def MkdirAll.simps)

theorem C5_counterexample:
  "copyDirectory 0 [''src''] [''dst'']
     (Dir 493 [(''src'', Dir 493 [(''a'', File 420 ''x'')]),
               (''dst'', Dir 448 [(''a'', File 384 ''old'')])])
     = (Dir 493 [(''src'', Dir 493 [(''a'', File 420 ''x'')]),
                 (''dst'', Dir 448 [(''a'', File 384 ''x'')])], None) \<and>
   look (Dir 493 [(''src'', Dir 493 [(''a'', File 420 ''x'')]),
                  (''dst'', Dir 448 [(''a'', File 384 ''old'')])]) [''src'', ''a'']
     = Some (F 420 ''x'') \<and>
   look (Dir 493 [(''src'', Dir 493 [(''a'', File 420 ''x'')]),
                  (''dst'', Dir 448 [(''a'', File 384 ''x'')])]) [''dst'', ''a'']
     = Some (F 384 ''x'') \<and>
   look (Dir 493 [(''src'', Dir 493 [(''a'', File 420 ''x'')]),
                  (''dst'', Dir 448 [(''a'', File 384 ''old'')])]) [''src'']
     = Some (D 493) \<and>
   look (Dir 493 [(''src'', Dir 493 [(''a'', File 420 ''x'')]),
                  (''dst'', Dir 448 [(''a'', File 384 ''x'')])]) [''dst'']
     = Some (D 448)"
  by (simp add: copyDirectory_def Walk_def copyDirectory_fn_def filepath_Rel_def filepath_Dir_def
        copyFile_def readDirNames_def MkdirAll.simps)









text \<open>
  Claim C4, as the code has it. The stages only ask whether \<open>os.Stat\<close> reports that the
  candidate does not exist: a candidate that exists is the source, directory or not, and
  for a regular file \<open>copyDirectory\<close> creates the destination's parent and copies the file
  to the destination path itself.
\<close>

theorem C4_existing_candidate_is_selected:
  "(Stat fs (ov @ [''artifacts'', ''install'', ''kernel-modules'']) = Inr n \<longrightarrow>
      installKernelModules um ov rf fs
        = copyDirectory um (ov @ [''artifacts'', ''install'', ''kernel-modules''])
            (rf @ [''lib'', ''modules'']) fs) \<and>
   (Stat fs (ov @ [''artifacts'', ''install'', ''firmware'']) = Inr n \<longrightarrow>
      installFirmware um ov rf fs
        = copyDirectory um (ov @ [''artifacts'', ''install'', ''firmware''])
            (rf @ [''lib'', ''firmware'']) fs) \<and>
   (Stat fs (ov @ [''artifacts'', ''files'']) = Inr n \<longrightarrow>
      installConfigFiles um ov rf fs = copyDirectory um (ov @ [''artifacts'', ''files'']) rf fs) \<and>
   (IsNotExist (Stat fs (ov @ [''artifacts'', ''install'', ''kernel-modules''])) \<and>
    Stat fs (ov @ [''install'', ''kernel-modules'']) = Inr n \<longrightarrow>
      installKernelModules um ov rf fs
        = copyDirectory um (ov @ [''install'', ''kernel-modules'']) (rf @ [''lib'', ''modules'']) fs) \<and>
   (IsNotExist (Stat fs (ov @ [''artifacts'', ''install'', ''firmware''])) \<and>
    Stat fs (ov @ [''install'', ''firmware'']) = Inr n \<longrightarrow>
      installFirmware um ov rf fs
        = copyDirectory um (ov @ [''install'', ''firmware'']) (rf @ [''lib'', ''firmware'']) fs) \<and>
   (IsNotExist (Stat fs (ov @ [''artifacts'', ''files''])) \<and>
    Stat fs (ov @ [''files'']) = Inr n \<longrightarrow>
      installConfigFiles um ov rf fs = copyDirectory um (ov @ [''files'']) rf fs) \<and>
   (Stat fs (ov @ [''install'', ''kernel-modules'']) = Inr n \<longrightarrow>
      installKernelModules_positional um ov rf fs
        = copyDirectory um (ov @ [''install'', ''kernel-modules'']) (rf @ [''lib'', ''modules'']) fs) \<and>
   (Stat fs (ov @ [''install'', ''firmware'']) = Inr n \<longrightarrow>
      installFirmware_positional um ov rf fs
        = copyDirectory um (ov @ [''install'', ''firmware'']) (rf @ [''lib'', ''firmware'']) fs) \<and>
   (Stat fs (ov @ [''files'']) = Inr n \<longrightarrow>
      installConfigFiles_positional um ov rf fs = copyDirectory um (ov @ [''files'']) rf fs) \<and>
   (Stat fs src = Inr (File m c) \<longrightarrow>
      copyDirectory um src dst fs =
        (case MkdirAll um fs (filepath_Dir dst) 493 of
           (fs1, Some e) \<Rightarrow> (fs1, Some (PathError e))
         | (fs1, None) \<Rightarrow> copyFile um src dst m fs1))"
proof -
  have onfile: "Stat fs src = Inr (File m c) \<longrightarrow>
      copyDirectory um src dst fs =
        (case MkdirAll um fs (filepath_Dir dst) 493 of
           (fs1, Some e) \<Rightarrow> (fs1, Some (PathError e))
         | (fs1, None) \<Rightarrow> copyFile um src dst m fs1)"
    by (simp add: copyDirectory_def Walk_def copyDirectory_fn_def filepath_Rel_def)
  show ?thesis
    by (rule conjI | rule onfile
        | simp add: installKernelModules_def installFirmware_def installConfigFiles_def
            installKernelModules_positional_def installFirmware_positional_def
            installConfigFiles_positional_def)+
qed

theorem C4_existing_candidate_is_selected_witness:
  "Stat ex_file_candidate ([''overlay''] @ [''artifacts'', ''install'', ''kernel-modules''])
     = Inr (File 420 ''x'') \<and>
   installKernelModules 0 [''overlay''] [''rootfs''] ex_file_candidate
     = copyDirectory 0 ([''overlay''] @ [''artifacts'', ''install'', ''kernel-modules''])
         ([''rootfs''] @ [''lib'', ''modules'']) ex_file_candidate \<and>
   copyDirectory 0 ([''overlay''] @ [''artifacts'', ''install'', ''kernel-modules''])
         ([''rootfs''] @ [''lib'', ''modules'']) ex_file_candidate
     = (ex_file_candidate_after, None)"
proof -
  have st: "Stat ex_file_candidate ([''overlay''] @ [''artifacts'', ''install'', ''kernel-modules''])
              = Inr (File 420 ''x'')"
    by (simp add: ex_file_candidate_def)
  have cp: "copyDirectory 0 ([''overlay''] @ [''artifacts'', ''install'', ''kernel-modules''])
              ([''rootfs''] @ [''lib'', ''modules'']) ex_file_candidate
              = (ex_file_candidate_after, None)"
    by (simp add: ex_file_candidate_def ex_file_candidate_after_def eval_defs)
  from st C4_existing_candidate_is_selected
          [where fs = ex_file_candidate and ov = "[''overlay'']" and rf = "[''rootfs'']"
             and n = "File 420 ''x''" and um = 0]
  have "installKernelModules 0 [''overlay''] [''rootfs''] ex_file_candidate
     = copyDirectory 0 ([''overlay''] @ [''artifacts'', ''install'', ''kernel-modules''])
         ([''rootfs''] @ [''lib'', ''modules'']) ex_file_candidate"
    by blast
  with st cp show ?thesis by blast
qed

theorem C4_counterexample:
  "Stat ex_file_candidate [''overlay'', ''artifacts'', ''install'', ''kernel-modules'']
     = Inr (File 420 ''x'') \<and>
   Stat ex_file_candidate [''rootfs'', ''lib'', ''modules''] = Inl ENOENT \<and>
   installKernelModules 0 [''overlay''] [''rootfs''] ex_file_candidate
     = (ex_file_candidate_after, None) \<and>
   Stat ex_file_candidate_after [''rootfs'', ''lib'', ''modules''] = Inr (File 420 ''x'')"
  by (simp add: ex_file_candidate_def ex_file_candidate_after_def eval_defs)

text \<open>
  Claim C2, as the code has it. For the same overlay root and target root, not nested in
  one another, the command-dispatch program and the positional program leave the same
  filesystem and succeed or fail together, provided \<open>os.Stat\<close> reports each of the three
  \<open>artifacts\<close> candidates as not existing: the positional program never looks there. The
  plugin's \<open>Install\<close> writes nothing at all.
\<close>

theorem C2_variants_agree:
  assumes ov: "filepath_Dir (filepath_Dir (toPath exe)) = toPath overlayArg"
    and rf: "toPath (MountPrefix options) = toPath rootfsArg"
    and nn: "\<not> prefix (toPath overlayArg) (toPath rootfsArg)"
            "\<not> prefix (toPath rootfsArg) (toPath overlayArg)"
    and k: "IsNotExist (Stat fs (toPath overlayArg @ [''artifacts'', ''install'', ''kernel-modules'']))"
    and f: "IsNotExist (Stat fs (toPath overlayArg @ [''artifacts'', ''install'', ''firmware'']))"
    and c: "IsNotExist (Stat fs (toPath overlayArg @ [''artifacts'', ''files'']))"
  shows "fst (install um (Inr options) (Inr exe) argz fs)
           = fst (main_positional um [prog, overlayArg, rootfsArg] fs) \<and>
         (snd (install um (Inr options) (Inr exe) argz fs) = None \<longleftrightarrow>
            fst (snd (main_positional um [prog, overlayArg, rootfsArg] fs)) = 0) \<and>
         fst (Installer_Install i opts fs) = fs"
proof -
  define ovl where "ovl = toPath overlayArg"
  define rfs where "rfs = toPath rootfsArg"
  note nn' = nn[folded ovl_def rfs_def]
  obtain fs1 r1 where s1: "installKernelModules_positional um ovl rfs fs = (fs1, r1)"
    by (cases "installKernelModules_positional um ovl rfs fs")
  obtain fs2 r2 where s2: "installFirmware_positional um ovl rfs fs1 = (fs2, r2)"
    by (cases "installFirmware_positional um ovl rfs fs1")
  obtain fs3 r3 where s3: "installConfigFiles_positional um ovl rfs fs2 = (fs3, r3)"
    by (cases "installConfigFiles_positional um ovl rfs fs2")
  have d1: "installKernelModules um ovl rfs fs = (fs1, r1)"
    using stage_same(1)[OF k[folded ovl_def]] s1 by simp
  have d2: "installFirmware um ovl rfs fs1 = (fs2, r2)" if "r1 = None"
  proof -
    from stage_keeps_absent(1)[OF nn' s1[unfolded that]] f[folded ovl_def]
    have "IsNotExist (Stat fs1 (ovl @ [''artifacts'', ''install'', ''firmware'']))" by simp
    from stage_same(2)[OF this] s2 show ?thesis by simp
  qed
  have d3: "installConfigFiles um ovl rfs fs2 = (fs3, r3)" if "r1 = None" "r2 = None"
  proof -
    from stage_keeps_absent(1)[OF nn' s1[unfolded that(1)]] c[folded ovl_def]
    have "IsNotExist (Stat fs1 (ovl @ [''artifacts'', ''files'']))" by simp
    with stage_keeps_absent(2)[OF nn' s2[unfolded that(2)]]
    have "IsNotExist (Stat fs2 (ovl @ [''artifacts'', ''files'']))" by simp
    from stage_same(3)[OF this] s3 show ?thesis by simp
  qed
  have "fst (install um (Inr options) (Inr exe) argz fs)
           = fst (main_positional um [prog, overlayArg, rootfsArg] fs) \<and>
         (snd (install um (Inr options) (Inr exe) argz fs) = None \<longleftrightarrow>
            fst (snd (main_positional um [prog, overlayArg, rootfsArg] fs)) = 0)"
  proof (cases r1)
    case (Some e)
    with s1 d1 show ?thesis
      by (simp add: install_def main_positional_def Let_def ov rf ovl_def[symmetric] rfs_def[symmetric])
  next
    case n1: None
    show ?thesis
    proof (cases r2)
      case (Some e)
      with n1 s1 d1 s2 d2 show ?thesis
        by (simp add: install_def main_positional_def Let_def ov rf ovl_def[symmetric] rfs_def[symmetric])
    next
      case n2: None
      with n1 s1 d1 s2 d2 s3 d3 show ?thesis
        by (cases r3)
           (simp_all add: install_def main_positional_def Let_def ov rf
              ovl_def[symmetric] rfs_def[symmetric])
    qed
  qed
  with Installer_Install_writes_nothing show ?thesis by simp
qed


theorem C2_variants_agree_witness:
  "filepath_Dir (filepath_Dir (toPath ''/overlay/installers/installer'')) = toPath ''/overlay'' \<and>
   toPath (MountPrefix ex_options) = toPath ''/rootfs'' \<and>
   \<not> prefix (toPath ''/overlay'') (toPath ''/rootfs'') \<and>
   \<not> prefix (toPath ''/rootfs'') (toPath ''/overlay'') \<and>
   IsNotExist (Stat ex_legacy (toPath ''/overlay'' @ [''artifacts'', ''install'', ''kernel-modules''])) \<and>
   IsNotExist (Stat ex_legacy (toPath ''/overlay'' @ [''artifacts'', ''install'', ''firmware''])) \<and>
   IsNotExist (Stat ex_legacy (toPath ''/overlay'' @ [''artifacts'', ''files''])) \<and>
   main_positional 18 [''installer'', ''/overlay'', ''/rootfs''] ex_legacy
     = (ex_legacy_after, 0, []) \<and>
   fst (install 18 (Inr ex_options) (Inr ''/overlay/installers/installer'') ''installer'' ex_legacy)
     = ex_legacy_after \<and>
   snd (install 18 (Inr ex_options) (Inr ''/overlay/installers/installer'') ''installer'' ex_legacy)
     = None"
proof -
  have a1: "filepath_Dir (filepath_Dir (toPath ''/overlay/installers/installer'')) = toPath ''/overlay''"
    and a2: "toPath (MountPrefix ex_options) = toPath ''/rootfs''"
    and a3: "\<not> prefix (toPath ''/overlay'') (toPath ''/rootfs'')"
    and a4: "\<not> prefix (toPath ''/rootfs'') (toPath ''/overlay'')"
    by (simp_all add: toPath_def filepath_Dir_def ex_options_def)
  have n1: "IsNotExist (Stat ex_legacy (toPath ''/overlay'' @ [''artifacts'', ''install'', ''kernel-modules'']))"
    and n2: "IsNotExist (Stat ex_legacy (toPath ''/overlay'' @ [''artifacts'', ''install'', ''firmware'']))"
    and n3: "IsNotExist (Stat ex_legacy (toPath ''/overlay'' @ [''artifacts'', ''files'']))"
    by (simp_all add: toPath_def ex_legacy_def)
  have p: "main_positional 18 [''installer'', ''/overlay'', ''/rootfs''] ex_legacy
             = (ex_legacy_after, 0, [])"
    by (simp add: ex_legacy_def ex_legacy_after_def eval_defs)
  from p C2_variants_agree[OF a1 a2 a3 a4 n1 n2 n3, where um = 18 and argz = "''installer''"
                            and prog = "''installer''"]
  have "fst (install 18 (Inr ex_options) (Inr ''/overlay/installers/installer'') ''installer'' ex_legacy)
          = ex_legacy_after"
    and "snd (install 18 (Inr ex_options) (Inr ''/overlay/installers/installer'') ''installer'' ex_legacy)
          = None"
    by simp_all
  with a1 a2 a3 a4 n1 n2 n3 p show ?thesis by blast
qed

theorem C2_counterexample:
  "main_positional 0 [''installer'', ''/overlay'', ''/rootfs''] ex_legacy
     = (ex_legacy_after, 0, []) \<and>
   Installer_Install (NewInstaller ''/overlay'') \<lparr>RootfsPath = ''/rootfs''\<rparr> ex_legacy
     = (ex_legacy, None) \<and>
   look ex_legacy_after [''rootfs'', ''lib'', ''modules'', ''m.ko''] = Some (F 420 ''m'') \<and>
   look ex_legacy [''rootfs'', ''lib'', ''modules'', ''m.ko''] = None \<and>
   install 0 (Inr ex_options) (Inr ''/overlay/installers/installer'') ''installer'' ex_current
     = (ex_current_after, None) \<and>
   main_positional 0 [''installer'', ''/overlay'', ''/rootfs''] ex_current
     = (ex_current, 0, []) \<and>
   look ex_current_after [''rootfs'', ''lib'', ''modules'', ''m.ko''] = Some (F 420 ''m'') \<and>
   look ex_current [''rootfs'', ''lib'', ''modules'', ''m.ko''] = None"
  by (simp add: ex_legacy_def ex_legacy_after_def ex_current_def ex_current_after_def
        ex_options_def eval_defs)





end
